theory Spec2Isabelle
  imports Main "HOL-Library.Word"
begin

section \<open>Bytes, buffers and the platform's typed-array operations\<close>

text \<open>
  The packet codec of \<^verbatim>\<open>bitchat-pwa/index.js\<close> works on \<^verbatim>\<open>ArrayBuffer\<close>s through
  \<^verbatim>\<open>DataView\<close> and \<^verbatim>\<open>Uint8Array\<close>. A buffer is the list of its bytes. A \<^verbatim>\<open>DataView\<close>
  access outside the buffer and a \<^verbatim>\<open>Uint8Array.set\<close> that does not fit raise
  \<^verbatim>\<open>RangeError\<close>; \<^verbatim>\<open>Uint8Array.slice\<close> clamps its bounds to the buffer and never raises.
\<close>

type_synonym byte = "8 word"
type_synonym bytes = "byte list"

datatype js_error = RangeError | NetworkError | TypeError

definition ebind :: "js_error + 'a \<Rightarrow> ('a \<Rightarrow> js_error + 'b) \<Rightarrow> js_error + 'b" where
  "ebind m f = (case m of Inl e \<Rightarrow> Inl e | Inr x \<Rightarrow> f x)"

text \<open>\<^verbatim>\<open>new ArrayBuffer(n)\<close>: \<open>n\<close> zero bytes.\<close>

definition ArrayBuffer :: "nat \<Rightarrow> bytes" where
  "ArrayBuffer n = replicate n 0"

text \<open>Big-endian readings of a byte sequence, and the big-endian bytes of a number
  (reduced modulo the field width, as \<^verbatim>\<open>setUint8\<close>, \<^verbatim>\<open>setUint16\<close> and
  \<^verbatim>\<open>setBigUint64\<close> do).\<close>

fun be_val :: "bytes \<Rightarrow> nat" where
  "be_val [] = 0"
| "be_val (b # bs) = unat b * 256 ^ length bs + be_val bs"

fun be_bytes :: "nat \<Rightarrow> nat \<Rightarrow> bytes" where
  "be_bytes 0 v = []"
| "be_bytes (Suc k) v = of_nat (v div 256 ^ k) # be_bytes k v"

definition write_at :: "bytes \<Rightarrow> nat \<Rightarrow> bytes \<Rightarrow> js_error + bytes" where
  "write_at buf off src =
     (if off + length src \<le> length buf
      then Inr (take off buf @ src @ drop (off + length src) buf)
      else Inl RangeError)"

definition setUint8 :: "bytes \<Rightarrow> nat \<Rightarrow> int \<Rightarrow> js_error + bytes" where
  "setUint8 buf off v = write_at buf off [of_int v]"

definition setUint16 :: "bytes \<Rightarrow> nat \<Rightarrow> nat \<Rightarrow> js_error + bytes" where
  "setUint16 buf off v = write_at buf off (be_bytes 2 v)"

definition setBigUint64 :: "bytes \<Rightarrow> nat \<Rightarrow> nat \<Rightarrow> js_error + bytes" where
  "setBigUint64 buf off v = write_at buf off (be_bytes 8 v)"

text \<open>\<^verbatim>\<open>uint8View.set(src, off)\<close>.\<close>

definition set_bytes :: "bytes \<Rightarrow> bytes \<Rightarrow> nat \<Rightarrow> js_error + bytes" where
  "set_bytes buf src off = write_at buf off src"

definition read_at :: "bytes \<Rightarrow> nat \<Rightarrow> nat \<Rightarrow> js_error + nat" where
  "read_at buf off n =
     (if off + n \<le> length buf then Inr (be_val (take n (drop off buf))) else Inl RangeError)"

definition getUint8 :: "bytes \<Rightarrow> nat \<Rightarrow> js_error + nat" where
  "getUint8 buf off = read_at buf off 1"

definition getUint16 :: "bytes \<Rightarrow> nat \<Rightarrow> js_error + nat" where
  "getUint16 buf off = read_at buf off 2"

definition getBigUint64 :: "bytes \<Rightarrow> nat \<Rightarrow> js_error + nat" where
  "getBigUint64 buf off = read_at buf off 8"

text \<open>\<^verbatim>\<open>uint8View.slice(start, end)\<close> for \<open>0 \<le> start \<le> end\<close>: the bytes that exist
  in that range.\<close>

definition slice_bytes :: "bytes \<Rightarrow> nat \<Rightarrow> nat \<Rightarrow> bytes" where
  "slice_bytes buf start end = take (end - start) (drop start buf)"

section \<open>Strings, \<^verbatim>\<open>TextEncoder\<close> and \<^verbatim>\<open>TextDecoder\<close>\<close>

text \<open>
  A JavaScript string is modelled as the list of its code points (a surrogate pair is one
  code point above \<open>0xFFFF\<close>; an unpaired surrogate is a code point in
  \<open>0xD800..0xDFFF\<close>). \<^verbatim>\<open>TextEncoder.encode\<close> replaces an unpaired surrogate by
  \<open>U+FFFD\<close> and writes UTF-8. \<^verbatim>\<open>new TextDecoder().decode\<close> is the UTF-8 decoder of the
  Encoding Standard in replacement mode (a malformed sequence gives \<open>U+FFFD\<close>) and,
  with the default \<^verbatim>\<open>ignoreBOM = false\<close>, drops a leading \<open>U+FEFF\<close>.
\<close>

type_synonym jsstring = "nat list"

definition is_scalar :: "nat \<Rightarrow> bool" where
  "is_scalar c = (c < 0x110000 \<and> \<not> (0xD800 \<le> c \<and> c \<le> 0xDFFF))"

definition to_scalar :: "nat \<Rightarrow> nat" where
  "to_scalar c = (if 0xD800 \<le> c \<and> c \<le> 0xDFFF then 0xFFFD else c)"

definition utf8_encode_cp :: "nat \<Rightarrow> bytes" where
  "utf8_encode_cp c =
     (if c < 0x80 then [of_nat c]
      else if c < 0x800 then [of_nat (0xC0 + c div 64), of_nat (0x80 + c mod 64)]
      else if c < 0x10000 then
        [of_nat (0xE0 + c div 4096), of_nat (0x80 + c div 64 mod 64), of_nat (0x80 + c mod 64)]
      else
        [of_nat (0xF0 + c div 262144), of_nat (0x80 + c div 4096 mod 64),
         of_nat (0x80 + c div 64 mod 64), of_nat (0x80 + c mod 64)])"

definition TextEncoder_encode :: "jsstring \<Rightarrow> bytes" where
  "TextEncoder_encode s = concat (map (\<lambda>c. utf8_encode_cp (to_scalar c)) s)"

text \<open>The decoder's state is the code point under construction, the continuation bytes
  seen and needed, and the bounds of the next continuation byte. A byte that cannot
  continue a sequence ends it with \<open>U+FFFD\<close> and is then read as a lead byte.\<close>

fun utf8_decode :: "nat \<Rightarrow> nat \<Rightarrow> nat \<Rightarrow> nat \<Rightarrow> nat \<Rightarrow> bytes \<Rightarrow> nat list" where
  "utf8_decode cp seen needed lo hi [] = (if needed = 0 then [] else [0xFFFD])"
| "utf8_decode cp seen needed lo hi (b # bs) =
     (let x = unat b in
      if needed \<noteq> 0 \<and> lo \<le> x \<and> x \<le> hi then
        (let cp' = cp * 64 + x mod 64 in
         if seen + 1 = needed then cp' # utf8_decode 0 0 0 0x80 0xBF bs
         else utf8_decode cp' (seen + 1) needed 0x80 0xBF bs)
      else
        (if needed = 0 then [] else [0xFFFD]) @
        (if x \<le> 0x7F then x # utf8_decode 0 0 0 0x80 0xBF bs
         else if 0xC2 \<le> x \<and> x \<le> 0xDF then utf8_decode (x mod 32) 0 1 0x80 0xBF bs
         else if 0xE0 \<le> x \<and> x \<le> 0xEF then
           utf8_decode (x mod 16) 0 2 (if x = 0xE0 then 0xA0 else 0x80)
             (if x = 0xED then 0x9F else 0xBF) bs
         else if 0xF0 \<le> x \<and> x \<le> 0xF4 then
           utf8_decode (x mod 8) 0 3 (if x = 0xF0 then 0x90 else 0x80)
             (if x = 0xF4 then 0x8F else 0xBF) bs
         else 0xFFFD # utf8_decode 0 0 0 0x80 0xBF bs))"

definition TextDecoder_decode :: "bytes \<Rightarrow> jsstring" where
  "TextDecoder_decode bs =
     (case utf8_decode 0 0 0 0x80 0xBF bs of
        [] \<Rightarrow> []
      | c # cs \<Rightarrow> if c = 0xFEFF then cs else c # cs)"

text \<open>\<^verbatim>\<open>Array.from(id).map(b => b.toString(16).padStart(2, "0")).join("")\<close>.\<close>

definition hex_digit :: "nat \<Rightarrow> char" where
  "hex_digit n = ''0123456789abcdef'' ! (n mod 16)"

definition hex_string :: "bytes \<Rightarrow> string" where
  "hex_string bs = concat (map (\<lambda>b. [hex_digit (unat b div 16), hex_digit (unat b mod 16)]) bs)"

section \<open>The packet encoders\<close>

text \<open>
  \<^verbatim>\<open>generateAnnouncePacket(senderId, senderName, ttl = 3)\<close> and
  \<^verbatim>\<open>generateMessagePacket(senderId, senderName, content, ttl = 3)\<close>. The reading of
  \<^verbatim>\<open>Date.now()\<close> and the string returned by \<^verbatim>\<open>crypto.randomUUID()\<close> are parameters.
  An omitted \<open>ttl\<close> argument is \<open>None\<close>. The writes follow the source one by one, each
  with the offset the source has at that point.
\<close>

definition generateAnnouncePacket :: "nat \<Rightarrow> bytes \<Rightarrow> jsstring \<Rightarrow> int option \<Rightarrow> js_error + bytes" where
  "generateAnnouncePacket timestamp senderId senderName ttl_arg =
     (let ttl = (case ttl_arg of None \<Rightarrow> 3 | Some t \<Rightarrow> t);
          nameBytes = TextEncoder_encode senderName;
          packet = ArrayBuffer (15 + 8 + length nameBytes)
      in ebind (setUint8 packet 0 0x01) (\<lambda>packet.
         ebind (setUint8 packet 1 0x01) (\<lambda>packet.
         ebind (setUint8 packet 2 ttl) (\<lambda>packet.
         ebind (setBigUint64 packet 3 timestamp) (\<lambda>packet.
         ebind (setUint8 packet 11 0x00) (\<lambda>packet.
         ebind (setUint16 packet 12 (length nameBytes)) (\<lambda>packet.
         ebind (set_bytes packet senderId 14) (\<lambda>packet.
         ebind (set_bytes packet nameBytes (14 + length senderId)) (\<lambda>packet.
         Inr packet)))))))))"

text \<open>The first half of \<^verbatim>\<open>generateMessagePacket\<close>: the nested record that the source
  builds in the buffer \<open>message\<close> before it allocates the packet. \<open>messageLength\<close> is
  the size of that buffer.\<close>

definition generateMessageRecord :: "nat \<Rightarrow> jsstring \<Rightarrow> bytes \<Rightarrow> jsstring \<Rightarrow> jsstring \<Rightarrow> js_error + bytes" where
  "generateMessageRecord timestamp uid senderId senderName content =
     (let nameBytes = TextEncoder_encode senderName;
          contentBytes = TextEncoder_encode content;
          uidBytes = TextEncoder_encode uid;
          messageLength = 1 + 8 + 1 + length uidBytes + 1 + length nameBytes + 2
                          + length contentBytes + 1 + length senderId;
          message = ArrayBuffer messageLength;
          msgOffset = 0
      in ebind (setUint8 message msgOffset 0x10) (\<lambda>message.
         let msgOffset = msgOffset + 1 in
         ebind (setBigUint64 message msgOffset timestamp) (\<lambda>message.
         let msgOffset = msgOffset + 8 in
         ebind (setUint8 message msgOffset (int (length uidBytes))) (\<lambda>message.
         let msgOffset = msgOffset + 1 in
         ebind (set_bytes message uidBytes msgOffset) (\<lambda>message.
         let msgOffset = msgOffset + length uidBytes in
         ebind (setUint8 message msgOffset (int (length nameBytes))) (\<lambda>message.
         let msgOffset = msgOffset + 1 in
         ebind (set_bytes message nameBytes msgOffset) (\<lambda>message.
         let msgOffset = msgOffset + length nameBytes in
         ebind (setUint16 message msgOffset (length contentBytes)) (\<lambda>message.
         let msgOffset = msgOffset + 2 in
         ebind (set_bytes message contentBytes msgOffset) (\<lambda>message.
         let msgOffset = msgOffset + length contentBytes in
         ebind (setUint8 message msgOffset (int (length senderId))) (\<lambda>message.
         let msgOffset = msgOffset + 1 in
         ebind (set_bytes message senderId msgOffset) (\<lambda>message.
         Inr message)))))))))))"

definition generateMessagePacket :: "nat \<Rightarrow> jsstring \<Rightarrow> bytes \<Rightarrow> jsstring \<Rightarrow> jsstring \<Rightarrow> int option \<Rightarrow> js_error + bytes" where
  "generateMessagePacket timestamp uid senderId senderName content ttl_arg =
     (let ttl = (case ttl_arg of None \<Rightarrow> 3 | Some t \<Rightarrow> t) in
      ebind (generateMessageRecord timestamp uid senderId senderName content) (\<lambda>message.
      let messageLength = length message;
          packetLength = 15 + 8 + 8 + messageLength;
          packet = ArrayBuffer packetLength
      in ebind (setUint8 packet 0 0x01) (\<lambda>packet.
         ebind (setUint8 packet 1 0x04) (\<lambda>packet.
         ebind (setUint8 packet 2 ttl) (\<lambda>packet.
         ebind (setBigUint64 packet 3 timestamp) (\<lambda>packet.
         ebind (setUint8 packet 11 0x01) (\<lambda>packet.
         ebind (setUint16 packet 12 messageLength) (\<lambda>packet.
         ebind (set_bytes packet senderId 14) (\<lambda>packet.
         ebind (set_bytes packet (replicate 8 0xff) (14 + length senderId)) (\<lambda>packet.
         ebind (set_bytes packet message (14 + length senderId + 8)) (\<lambda>packet.
         Inr packet)))))))))))"

section \<open>Identity, sending and broadcasting\<close>

text \<open>
  The page's collaborators are inputs of the model. \<open>getRandomValues\<close> is the stream of
  bytes \<^verbatim>\<open>crypto.getRandomValues\<close> hands out, \<open>randomUUID\<close> and \<open>now\<close> give the
  successive results of \<^verbatim>\<open>crypto.randomUUID()\<close> and \<^verbatim>\<open>Date.now()\<close>, and \<open>bluetooth\<close>
  says whether \<^verbatim>\<open>navigator.bluetooth\<close> exists. A device is what the picker returns:
  its \<open>id\<close>, whether \<^verbatim>\<open>gatt.connect()\<close>, \<^verbatim>\<open>getPrimaryService\<close> and
  \<^verbatim>\<open>getCharacteristic\<close> all resolve, and whether it accepts the packet written to it
  after \<open>k\<close> earlier ones (a rejected \<^verbatim>\<open>writeValueWithoutResponse\<close> raises).
\<close>

record env =
  bluetooth :: bool
  getRandomValues :: "nat \<Rightarrow> byte"
  randomUUID :: "nat \<Rightarrow> jsstring"
  now :: "nat \<Rightarrow> nat"

record device =
  dev_id :: string
  connects :: bool
  accepts :: "nat \<Rightarrow> bool"

text \<open>One constructor for each message the modelled functions pass to \<^verbatim>\<open>log\<close>, with
  the values the message text interpolates, and one for each \<^verbatim>\<open>setStatus\<close>.\<close>

datatype log_msg =
    LogNotConnected
  | LogMissingInput
  | LogSendingAnnounce
  | LogSendingMessage int int
  | LogSent int
  | LogFailedToSend js_error
  | LogBroadcastStart
  | LogPickerNote
  | LogAlreadySent string
  | LogConnecting string
  | LogSendingMessageTo string int int
  | LogSentTo string int
  | LogFailedToSendTo string js_error
  | LogUserCancelled
  | LogPickerError
  | LogBroadcastComplete int nat
  | LogBroadcastError

datatype status_text =
    StatusInitial
  | StatusBroadcasting
  | StatusBroadcastTo nat
  | StatusNoDevices
  | StatusBroadcastFailed

text \<open>
  The mutable state: the globals \<open>currentCharacteristic\<close> and \<open>discoveredDevices\<close>, how
  much of each collaborator's stream has been consumed, the packets written so far with
  the id of the device they went to (oldest first), the log (newest first) and the status
  line. Buttons and the other page elements are left out.
\<close>

record session =
  currentCharacteristic :: "device option"
  discoveredDevices :: "device list"
  random_drawn :: nat
  uuids_drawn :: nat
  clock_reads :: nat
  wire :: "(string \<times> bytes) list"
  log_entries :: "log_msg list"
  status :: status_text

text \<open>\<^verbatim>\<open>log(message)\<close>: the entry goes first; beyond 50 entries the oldest is removed.\<close>

definition log_add :: "log_msg \<Rightarrow> session \<Rightarrow> session" where
  "log_add m s =
     (let l = m # log_entries s
      in s\<lparr>log_entries := (if length l > 50 then butlast l else l)\<rparr>)"

definition setStatus :: "status_text \<Rightarrow> session \<Rightarrow> session" where
  "setStatus t s = s\<lparr>status := t\<rparr>"

definition generateSenderId :: "env \<Rightarrow> session \<Rightarrow> bytes \<times> session" where
  "generateSenderId e s =
     (map (getRandomValues e) [random_drawn s ..< random_drawn s + 8],
      s\<lparr>random_drawn := random_drawn s + 8\<rparr>)"

text \<open>The two encoders as the page calls them: they read the clock, and the message
  encoder then draws a UUID.\<close>

definition announcePacket_now ::
  "env \<Rightarrow> bytes \<Rightarrow> jsstring \<Rightarrow> int option \<Rightarrow> session \<Rightarrow> (js_error + bytes) \<times> session" where
  "announcePacket_now e senderId senderName ttl_arg s =
     (generateAnnouncePacket (now e (clock_reads s)) senderId senderName ttl_arg,
      s\<lparr>clock_reads := clock_reads s + 1\<rparr>)"

definition messagePacket_now ::
  "env \<Rightarrow> bytes \<Rightarrow> jsstring \<Rightarrow> jsstring \<Rightarrow> int option \<Rightarrow> session \<Rightarrow> (js_error + bytes) \<times> session" where
  "messagePacket_now e senderId senderName content ttl_arg s =
     (generateMessagePacket (now e (clock_reads s)) (randomUUID e (uuids_drawn s))
        senderId senderName content ttl_arg,
      s\<lparr>clock_reads := clock_reads s + 1, uuids_drawn := uuids_drawn s + 1\<rparr>)"

text \<open>\<^verbatim>\<open>await characteristic.writeValueWithoutResponse(packet)\<close>. A step that can raise
  returns \<open>Some error\<close> beside the state reached when it raised, \<open>None\<close> when it
  completed.\<close>

definition writeValueWithoutResponse :: "device \<Rightarrow> bytes \<Rightarrow> session \<Rightarrow> js_error option \<times> session" where
  "writeValueWithoutResponse d packet s =
     (if accepts d (length (filter (\<lambda>w. fst w = dev_id d) (wire s)))
      then (None, s\<lparr>wire := wire s @ [(dev_id d, packet)]\<rparr>)
      else (Some NetworkError, s))"

text \<open>The loop \<^verbatim>\<open>for (let i = 0; i < numMessages; i++)\<close> of \<^verbatim>\<open>sendMessages\<close> and of
  \<^verbatim>\<open>broadcastToAll\<close>, with \<open>k\<close> iterations left; \<open>entry\<close> builds the log message of
  the iteration from \<open>i + 1\<close>. Every message packet is generated with \<open>ttl = 5\<close>.\<close>

fun message_loop ::
  "env \<Rightarrow> device \<Rightarrow> (int \<Rightarrow> log_msg) \<Rightarrow> bytes \<Rightarrow> jsstring \<Rightarrow> jsstring \<Rightarrow> nat \<Rightarrow> int \<Rightarrow> session
   \<Rightarrow> js_error option \<times> session" where
  "message_loop e d entry senderId senderName message 0 i s = (None, s)"
| "message_loop e d entry senderId senderName message (Suc k) i s =
     (let s = log_add (entry (i + 1)) s;
          (r, s) = messagePacket_now e senderId senderName message (Some 5) s
      in case r of
           Inl err \<Rightarrow> (Some err, s)
         | Inr messagePacket \<Rightarrow>
             (case writeValueWithoutResponse d messagePacket s of
                (Some err, s) \<Rightarrow> (Some err, s)
              | (None, s) \<Rightarrow> message_loop e d entry senderId senderName message k (i + 1) s))"

text \<open>The announce packet (no \<open>ttl\<close> argument) followed by the message loop: the common
  part of the two \<^verbatim>\<open>try\<close> blocks.\<close>

definition announce_then_messages ::
  "env \<Rightarrow> device \<Rightarrow> (int \<Rightarrow> log_msg) \<Rightarrow> bytes \<Rightarrow> jsstring \<Rightarrow> jsstring \<Rightarrow> int \<Rightarrow> session
   \<Rightarrow> js_error option \<times> session" where
  "announce_then_messages e d entry senderId senderName message numMessages s =
     (let s = log_add LogSendingAnnounce s;
          (r, s) = announcePacket_now e senderId senderName None s
      in case r of
           Inl err \<Rightarrow> (Some err, s)
         | Inr announcePacket \<Rightarrow>
             (case writeValueWithoutResponse d announcePacket s of
                (Some err, s) \<Rightarrow> (Some err, s)
              | (None, s) \<Rightarrow>
                  message_loop e d entry senderId senderName message (nat numMessages) 0 s))"


text \<open>The inner \<^verbatim>\<open>try\<close> block of \<^verbatim>\<open>broadcastToAll\<close> for one picked device, up to
  \<^verbatim>\<open>discoveredDevices.push(device)\<close> and the success message.\<close>

definition broadcast_device ::
  "env \<Rightarrow> bytes \<Rightarrow> jsstring \<Rightarrow> jsstring \<Rightarrow> int \<Rightarrow> device \<Rightarrow> session \<Rightarrow> js_error option \<times> session" where
  "broadcast_device e senderId senderName message numMessages d s =
     (if \<not> connects d then (Some NetworkError, s)
      else
        (case announce_then_messages e d (\<lambda>i. LogSendingMessageTo (dev_id d) i numMessages)
                senderId senderName message numMessages s of
           (Some err, s) \<Rightarrow> (Some err, s)
         | (None, s) \<Rightarrow>
             (None, log_add (LogSentTo (dev_id d) numMessages)
                      (s\<lparr>discoveredDevices := discoveredDevices s @ [d]\<rparr>))))"

text \<open>What one call of \<^verbatim>\<open>navigator.bluetooth.requestDevice\<close> gives: a device, or an
  exception (the user closing the picker, or another error).\<close>

datatype pick = Picked device | UserCancelled | PickerFailed

text \<open>
  The \<^verbatim>\<open>while (continueBroadcast)\<close> loop, run on the successive outcomes of the picker,
  with the local counters \<open>devicesFound\<close> and \<open>messagesSent\<close>. The loop ends only when
  the picker raises; while the picker has not answered the run has not returned, which is
  \<open>None\<close>.
\<close>

fun broadcast_loop ::
  "env \<Rightarrow> bytes \<Rightarrow> jsstring \<Rightarrow> jsstring \<Rightarrow> int \<Rightarrow> pick list \<Rightarrow> nat \<Rightarrow> int \<Rightarrow> session
   \<Rightarrow> (nat \<times> int \<times> session) option" where
  "broadcast_loop e senderId senderName message numMessages [] devicesFound messagesSent s = None"
| "broadcast_loop e senderId senderName message numMessages (UserCancelled # picks)
     devicesFound messagesSent s = Some (devicesFound, messagesSent, log_add LogUserCancelled s)"
| "broadcast_loop e senderId senderName message numMessages (PickerFailed # picks)
     devicesFound messagesSent s = Some (devicesFound, messagesSent, log_add LogPickerError s)"
| "broadcast_loop e senderId senderName message numMessages (Picked d # picks)
     devicesFound messagesSent s =
     (if find (\<lambda>d'. dev_id d' = dev_id d) (discoveredDevices s) \<noteq> None
      then broadcast_loop e senderId senderName message numMessages picks
             devicesFound messagesSent (log_add (LogAlreadySent (dev_id d)) s)
      else
        (let s = log_add (LogConnecting (dev_id d)) s
         in case broadcast_device e senderId senderName message numMessages d s of
              (None, s) \<Rightarrow>
                broadcast_loop e senderId senderName message numMessages picks
                  (devicesFound + 1) (messagesSent + numMessages) s
            | (Some err, s) \<Rightarrow>
                broadcast_loop e senderId senderName message numMessages picks
                  devicesFound messagesSent (log_add (LogFailedToSendTo (dev_id d) err) s)))"

text \<open>\<^verbatim>\<open>broadcastToAll()\<close>. The function returns no value: what it reports is the log
  entry and the status line written after the loop.\<close>

definition broadcastToAll ::
  "env \<Rightarrow> jsstring \<Rightarrow> jsstring \<Rightarrow> int \<Rightarrow> pick list \<Rightarrow> session \<Rightarrow> session option" where
  "broadcastToAll e senderName message numMessages picks s =
     (if \<not> bluetooth e then Some (setStatus StatusBroadcastFailed (log_add LogBroadcastError s))
      else if senderName = [] \<or> message = [] then Some (log_add LogMissingInput s)
      else
        (let s = setStatus StatusBroadcasting s;
             s = log_add LogBroadcastStart s;
             (senderId, s) = generateSenderId e s;
             s = log_add LogPickerNote s
         in case broadcast_loop e senderId senderName message numMessages picks 0 0 s of
              None \<Rightarrow> None
            | Some (devicesFound, messagesSent, s) \<Rightarrow>
                (let s = (if devicesFound > 0
                          then setStatus (StatusBroadcastTo devicesFound)
                                 (log_add (LogBroadcastComplete messagesSent devicesFound) s)
                          else setStatus StatusNoDevices s)
                 in Some (s\<lparr>discoveredDevices := []\<rparr>))))"

section \<open>The packet decoder\<close>

text \<open>
  The object \<^verbatim>\<open>parseReceivedPacket\<close> returns. An announce has no \<open>content\<close> and no
  \<open>uid\<close> key. \<open>senderId\<close> is the hexadecimal string the source builds; \<open>timestamp\<close>
  is the unsigned 64-bit reading that the source hands to \<^verbatim>\<open>new Date(Number(...))\<close>.
  The byte read into \<open>ttl\<close> is not stored in the object.
\<close>

record parsed =
  type :: string
  senderName :: jsstring
  content :: "jsstring option"
  senderId :: string
  timestamp :: nat
  uid :: "jsstring option"

text \<open>The branch for \<open>(0x01, 0x01)\<close>, entered with \<open>offset = 2\<close>.\<close>

definition parseAnnounce :: "bytes \<Rightarrow> nat \<Rightarrow> js_error + parsed option" where
  "parseAnnounce buf offset =
     ebind (getUint8 buf offset) (\<lambda>ttl.
     let offset = offset + 1 in
     ebind (getBigUint64 buf offset) (\<lambda>timestamp.
     let offset = offset + 8;
         offset = offset + 1 in
     ebind (getUint16 buf offset) (\<lambda>nameLength.
     let offset = offset + 2;
         senderId = slice_bytes buf offset (offset + 8);
         offset = offset + 8;
         senderName = TextDecoder_decode (slice_bytes buf offset (offset + nameLength))
     in Inr (Some \<lparr>type = ''announce'', senderName = senderName, content = None,
                     senderId = hex_string senderId, timestamp = timestamp, uid = None\<rparr>))))"

text \<open>The branch for \<open>(0x01, 0x04)\<close>, entered with \<open>offset = 2\<close>. The reads of
  \<open>messageLength\<close>, \<open>msgFlags\<close>, the envelope timestamp and the record's copy of the
  sender id are made (and can raise) although their values are not used.\<close>

definition parseMessage :: "bytes \<Rightarrow> nat \<Rightarrow> js_error + parsed option" where
  "parseMessage buf offset =
     ebind (getUint8 buf offset) (\<lambda>ttl.
     let offset = offset + 1 in
     ebind (getBigUint64 buf offset) (\<lambda>timestamp.
     let offset = offset + 8;
         offset = offset + 1 in
     ebind (getUint16 buf offset) (\<lambda>messageLength.
     let offset = offset + 2;
         senderId = slice_bytes buf offset (offset + 8);
         offset = offset + 8;
         offset = offset + 8;
         msgOffset = offset in
     ebind (getUint8 buf msgOffset) (\<lambda>msgFlags.
     let msgOffset = msgOffset + 1 in
     ebind (getBigUint64 buf msgOffset) (\<lambda>msgTimestamp.
     let msgOffset = msgOffset + 8 in
     ebind (getUint8 buf msgOffset) (\<lambda>uidLength.
     let msgOffset = msgOffset + 1;
         uid = TextDecoder_decode (slice_bytes buf msgOffset (msgOffset + uidLength));
         msgOffset = msgOffset + uidLength in
     ebind (getUint8 buf msgOffset) (\<lambda>nameLength.
     let msgOffset = msgOffset + 1;
         senderName = TextDecoder_decode (slice_bytes buf msgOffset (msgOffset + nameLength));
         msgOffset = msgOffset + nameLength in
     ebind (getUint16 buf msgOffset) (\<lambda>contentLength.
     let msgOffset = msgOffset + 2;
         content = TextDecoder_decode (slice_bytes buf msgOffset (msgOffset + contentLength));
         msgOffset = msgOffset + contentLength in
     ebind (getUint8 buf msgOffset) (\<lambda>senderIdLength.
     let msgOffset = msgOffset + 1;
         messageSenderId = slice_bytes buf msgOffset (msgOffset + senderIdLength)
     in Inr (Some \<lparr>type = ''message'', senderName = senderName, content = Some content,
                     senderId = hex_string senderId, timestamp = msgTimestamp,
                     uid = Some uid\<rparr>))))))))))"

text \<open>The body of the \<^verbatim>\<open>try\<close> block: \<open>Inl\<close> is an exception raised inside it,
  \<open>Inr None\<close> is the \<^verbatim>\<open>return null\<close> after the two branches.\<close>

definition parse_try :: "bytes \<Rightarrow> js_error + parsed option" where
  "parse_try buf =
     (let offset = 0 in
      ebind (getUint8 buf offset) (\<lambda>packetType1.
      let offset = offset + 1 in
      ebind (getUint8 buf offset) (\<lambda>packetType2.
      let offset = offset + 1 in
      if packetType1 = 0x01 \<and> packetType2 = 0x01 then parseAnnounce buf offset
      else if packetType1 = 0x01 \<and> packetType2 = 0x04 then parseMessage buf offset
      else Inr None)))"

text \<open>The \<^verbatim>\<open>try\<close> statement, on the bytes both views show: its \<^verbatim>\<open>catch\<close> clause
  turns every exception of the block into \<^verbatim>\<open>null\<close>.\<close>

definition parse_try_catch :: "bytes \<Rightarrow> parsed option" where
  "parse_try_catch buf = (case parse_try buf of Inl error \<Rightarrow> None | Inr r \<Rightarrow> r)"

text \<open>
  The argument \<open>data\<close>, as far as the function looks at it. The function reads one
  property, \<open>data.buffer\<close>. \<^verbatim>\<open>undefined\<close> and \<^verbatim>\<open>null\<close> have no properties; of every
  other value the model keeps what its \<open>buffer\<close> property holds: an \<^verbatim>\<open>ArrayBuffer\<close>
  with its bytes, an \<^verbatim>\<open>ArrayBuffer\<close> that has been detached, or something that is not
  an \<^verbatim>\<open>ArrayBuffer\<close> (\<^verbatim>\<open>undefined\<close> when \<open>data\<close> is itself an \<^verbatim>\<open>ArrayBuffer\<close>, a
  string, a plain object). A \<^verbatim>\<open>DataView\<close> or a \<^verbatim>\<open>Uint8Array\<close>, which is what the page's
  handlers and the two encoders produce, has the first kind; its \<open>byteOffset\<close> and
  \<open>byteLength\<close> are not read.
\<close>

datatype buffer_property = LiveBuffer bytes | DetachedBuffer | NotArrayBuffer

datatype js_value = Nullish | HasBuffer buffer_property

text \<open>A view over a buffer holding the bytes \<open>bs\<close>.\<close>

abbreviation view_of :: "bytes \<Rightarrow> js_value" where
  "view_of bs \<equiv> HasBuffer (LiveBuffer bs)"

text \<open>\<^verbatim>\<open>data.buffer\<close> raises \<^verbatim>\<open>TypeError\<close> on \<^verbatim>\<open>undefined\<close> and \<^verbatim>\<open>null\<close>.\<close>

definition get_buffer :: "js_value \<Rightarrow> js_error + buffer_property" where
  "get_buffer data = (case data of Nullish \<Rightarrow> Inl TypeError | HasBuffer b \<Rightarrow> Inr b)"

text \<open>\<^verbatim>\<open>new DataView(b)\<close> with one argument: a view of the whole buffer; \<^verbatim>\<open>TypeError\<close>
  when \<open>b\<close> is not an \<^verbatim>\<open>ArrayBuffer\<close> or is detached.\<close>

definition new_DataView :: "buffer_property \<Rightarrow> js_error + bytes" where
  "new_DataView b = (case b of LiveBuffer bs \<Rightarrow> Inr bs | DetachedBuffer \<Rightarrow> Inl TypeError
                     | NotArrayBuffer \<Rightarrow> Inl TypeError)"

text \<open>\<^verbatim>\<open>new Uint8Array(b)\<close>: a view of the whole buffer; \<^verbatim>\<open>TypeError\<close> when \<open>b\<close> is a
  detached \<^verbatim>\<open>ArrayBuffer\<close>. On a value that is not an \<^verbatim>\<open>ArrayBuffer\<close> the constructor
  does not raise, it builds a fresh array from the value; the model has the empty array
  \<^verbatim>\<open>undefined\<close> gives. The function never gets there: \<^verbatim>\<open>new DataView\<close>, one line
  earlier, has raised on such a value.\<close>

definition new_Uint8Array :: "buffer_property \<Rightarrow> js_error + bytes" where
  "new_Uint8Array b = (case b of LiveBuffer bs \<Rightarrow> Inr bs | DetachedBuffer \<Rightarrow> Inl TypeError
                       | NotArrayBuffer \<Rightarrow> Inr [])"

text \<open>
  \<^verbatim>\<open>parseReceivedPacket(data)\<close>. The two constructor calls stand before the \<^verbatim>\<open>try\<close>
  statement, so an exception they raise reaches the caller: the result is \<open>Inl\<close> of
  it. \<open>view\<close> and \<open>uint8View\<close> show the same buffer; when both exist they hold the
  same bytes, and the \<^verbatim>\<open>try\<close> statement reads them through \<open>view\<close>. \<open>Inr None\<close> is
  the result \<^verbatim>\<open>null\<close>.
\<close>

definition parseReceivedPacket :: "js_value \<Rightarrow> js_error + parsed option" where
  "parseReceivedPacket data =
     ebind (get_buffer data) (\<lambda>buffer.
     ebind (new_DataView buffer) (\<lambda>view.
     ebind (new_Uint8Array buffer) (\<lambda>uint8View.
     Inr (parse_try_catch view))))"

section \<open>Layouts and string predicates used in the statements\<close>

text \<open>The bytes the announce encoder writes, in the order it writes them: the 14-byte
  header, the sender id and the name.\<close>

definition announce_fields :: "nat \<Rightarrow> bytes \<Rightarrow> bytes \<Rightarrow> int \<Rightarrow> bytes" where
  "announce_fields ts sid nb ttl =
     [0x01, 0x01, of_int ttl] @ be_bytes 8 ts @ [0x00] @ be_bytes 2 (length nb) @ sid @ nb"

text \<open>The nested message record, and the bytes the message encoder writes around it.\<close>

definition message_fields :: "nat \<Rightarrow> bytes \<Rightarrow> bytes \<Rightarrow> bytes \<Rightarrow> bytes \<Rightarrow> bytes" where
  "message_fields ts ub sid nb cb =
     [0x10] @ be_bytes 8 ts @ [of_nat (length ub)] @ ub @ [of_nat (length nb)] @ nb
     @ be_bytes 2 (length cb) @ cb @ [of_nat (length sid)] @ sid"

definition envelope_fields :: "nat \<Rightarrow> bytes \<Rightarrow> bytes \<Rightarrow> int \<Rightarrow> bytes" where
  "envelope_fields ts sid msg ttl =
     [0x01, 0x04, of_int ttl] @ be_bytes 8 ts @ [0x01] @ be_bytes 2 (length msg) @ sid
     @ replicate 8 0xff @ msg"

text \<open>A string of Unicode scalar values (no unpaired surrogate), and a string that starts
  with the byte-order mark \<open>U+FEFF\<close>.\<close>

definition well_formed :: "jsstring \<Rightarrow> bool" where
  "well_formed s = list_all is_scalar s"

definition starts_with_bom :: "jsstring \<Rightarrow> bool" where
  "starts_with_bom s = (case s of [] \<Rightarrow> False | c # cs \<Rightarrow> c = 0xFEFF)"

text \<open>Decoding the result of an encoder call: the encoder's exception if it raised,
  what \<open>parseReceivedPacket\<close> does on the \<^verbatim>\<open>Uint8Array\<close> it returned otherwise.\<close>

definition decode_encoded :: "js_error + bytes \<Rightarrow> js_error + parsed option" where
  "decode_encoded r = ebind r (\<lambda>packet. parseReceivedPacket (view_of packet))"

text \<open>Decoding the first \<open>k\<close> bytes of the result of an encoder call.\<close>

definition decode_prefix :: "nat \<Rightarrow> js_error + bytes \<Rightarrow> js_error + parsed option" where
  "decode_prefix k r = ebind r (\<lambda>packet. parseReceivedPacket (view_of (take k packet)))"

text \<open>The sender id field of an encoded packet (bytes 14 to 21 of the envelope), and the
  relation between a state and a later one in which the packets \<open>ws\<close> have been written
  and the globals, the status line and the consumption of random bytes are as before.\<close>

definition sender_of :: "bytes \<Rightarrow> bytes" where
  "sender_of packet = slice_bytes packet 14 22"

definition wrote :: "session \<Rightarrow> session \<Rightarrow> (string \<times> bytes) list \<Rightarrow> bool" where
  "wrote s s' ws \<longleftrightarrow>
     wire s' = wire s @ ws \<and> random_drawn s' = random_drawn s
     \<and> currentCharacteristic s' = currentCharacteristic s
     \<and> discoveredDevices s' = discoveredDevices s \<and> status s' = status s"

text \<open>The collaborators of the examples: a random source that hands out the bytes
  \<open>0, 1, 2, \<dots>\<close>, a fixed clock and uid, devices that accept every write, and a page
  connected to the device \<open>d0\<close> that has sent nothing yet.\<close>

definition example_env :: env where
  "example_env = \<lparr>bluetooth = True, getRandomValues = of_nat, randomUUID = (\<lambda>k. [117, 49]),
                   now = (\<lambda>k. 1000)\<rparr>"

definition example_device :: "string \<Rightarrow> bool \<Rightarrow> device" where
  "example_device i c = \<lparr>dev_id = i, connects = c, accepts = (\<lambda>k. True)\<rparr>"

definition example_session :: session where
  "example_session = \<lparr>currentCharacteristic = Some (example_device ''d0'' True),
                       discoveredDevices = [], random_drawn = 0, uuids_drawn = 0, clock_reads = 0,
                       wire = [], log_entries = [], status = StatusInitial\<rparr>"

section \<open>Buffers: reading back what was written\<close>

lemma length_be_bytes [simp]: "length (be_bytes k v) = k"
  by (induction k) auto

lemma write_at_zeros:
  assumes "length pre = off" and "length src \<le> m"
  shows "write_at (pre @ replicate m 0) off src = Inr (pre @ src @ replicate (m - length src) 0)"
  using assms by (simp add: write_at_def)

lemma ebind_Inr [simp]: "ebind (Inr x) f = f x"
  by (simp add: ebind_def)

lemma ebind_Inl [simp]: "ebind (Inl e) f = Inl e"
  by (simp add: ebind_def)

lemma read_at_app:
  assumes "length pre = off" and "length mid = n"
  shows "read_at (pre @ mid @ post) off n = Inr (be_val mid)"
  using assms by (simp add: read_at_def)

lemma read_at_take:
  "read_at (take k buf) off n = (if off + n \<le> k then read_at buf off n else Inl RangeError)"
  by (auto simp add: read_at_def take_drop min_def)

lemma slice_app:
  assumes "length pre = off" and "length mid = n"
  shows "slice_bytes (pre @ mid @ post) off (off + n) = mid"
  using assms by (simp add: slice_bytes_def)

lemma slice_take:
  "en \<le> k \<Longrightarrow> slice_bytes (take k buf) st en = slice_bytes buf st en"
  by (cases "st \<le> en") (simp_all add: slice_bytes_def take_drop min_def)


lemma be_val_single [simp]: "be_val [b] = unat b"
  by simp

section \<open>UTF-8: decoding what the encoder wrote\<close>

lemma unat_byte_small: "n < 256 \<Longrightarrow> unat (of_nat n :: byte) = n"
  by (simp add: unat_of_nat)

lemma mod_shift: "r < m \<Longrightarrow> (k * m + r) mod m = (r::nat)"
  by simp

lemma dec_ascii:
  "unat b \<le> 0x7F \<Longrightarrow>
   utf8_decode 0 0 0 0x80 0xBF (b # bs) = unat b # utf8_decode 0 0 0 0x80 0xBF bs"
  by simp

lemma dec_lead2:
  "0xC2 \<le> unat b \<Longrightarrow> unat b \<le> 0xDF \<Longrightarrow>
   utf8_decode 0 0 0 0x80 0xBF (b # bs) = utf8_decode (unat b mod 32) 0 1 0x80 0xBF bs"
  by simp

lemma dec_lead3:
  "0xE0 \<le> unat b \<Longrightarrow> unat b \<le> 0xEF \<Longrightarrow>
   utf8_decode 0 0 0 0x80 0xBF (b # bs) =
   utf8_decode (unat b mod 16) 0 2 (if unat b = 0xE0 then 0xA0 else 0x80)
     (if unat b = 0xED then 0x9F else 0xBF) bs"
  by simp

lemma dec_lead4:
  "0xF0 \<le> unat b \<Longrightarrow> unat b \<le> 0xF4 \<Longrightarrow>
   utf8_decode 0 0 0 0x80 0xBF (b # bs) =
   utf8_decode (unat b mod 8) 0 3 (if unat b = 0xF0 then 0x90 else 0x80)
     (if unat b = 0xF4 then 0x8F else 0xBF) bs"
  by simp

lemma dec_cont_last:
  "needed = seen + 1 \<Longrightarrow> lo \<le> unat b \<Longrightarrow> unat b \<le> hi \<Longrightarrow>
   utf8_decode cp seen needed lo hi (b # bs) =
   (cp * 64 + unat b mod 64) # utf8_decode 0 0 0 0x80 0xBF bs"
  by simp

lemma dec_cont_more:
  "needed \<noteq> 0 \<Longrightarrow> seen + 1 \<noteq> needed \<Longrightarrow> lo \<le> unat b \<Longrightarrow> unat b \<le> hi \<Longrightarrow>
   utf8_decode cp seen needed lo hi (b # bs) =
   utf8_decode (cp * 64 + unat b mod 64) (seen + 1) needed 0x80 0xBF bs"
  by simp


lemma utf8_rt1:
  assumes "c < 0x80"
  shows "utf8_decode 0 0 0 0x80 0xBF (utf8_encode_cp c @ rest) = c # utf8_decode 0 0 0 0x80 0xBF rest"
proof -
  have enc: "utf8_encode_cp c = [of_nat c]"
    using assms by (simp add: utf8_encode_cp_def)
  have u: "unat (of_nat c :: byte) = c"
    using assms by (simp add: unat_byte_small)
  show ?thesis
    unfolding enc using assms by (simp only: append_Cons append_Nil) (simp add: dec_ascii u del: utf8_decode.simps)
qed

lemma utf8_rt2:
  assumes "0x80 \<le> c" and "c < 0x800"
  shows "utf8_decode 0 0 0 0x80 0xBF (utf8_encode_cp c @ rest) = c # utf8_decode 0 0 0 0x80 0xBF rest"
proof -
  define q where "q = c div 64"
  define r where "r = c mod 64"
  define a :: byte where "a = of_nat (0xC0 + q)"
  define b :: byte where "b = of_nat (0x80 + r)"
  have c: "c = q * 64 + r" and r: "r < 64"
    by (simp_all add: q_def r_def)
  have q: "2 \<le> q" "q < 32"
    using assms c r by linarith+
  have enc: "utf8_encode_cp c = [a, b]"
    using assms by (simp add: utf8_encode_cp_def q_def r_def a_def b_def)
  have ua: "unat a = 0xC0 + q"
    unfolding a_def by (rule unat_byte_small) (use q in simp)
  have ub: "unat b = 0x80 + r"
    unfolding b_def by (rule unat_byte_small) (use r in simp)
  have ma: "(0xC0 + q) mod 32 = q"
    using mod_shift [of q 32 6] q by simp
  have mb: "(0x80 + r) mod 64 = r"
    using mod_shift [of r 64 2] r by simp
  have "utf8_decode 0 0 0 0x80 0xBF (a # b # rest) = utf8_decode q 0 1 0x80 0xBF (b # rest)"
    using q by (subst dec_lead2) (simp_all add: ua ma del: utf8_decode.simps)
  also have "\<dots> = (q * 64 + r) # utf8_decode 0 0 0 0x80 0xBF rest"
    using r by (subst dec_cont_last) (simp_all add: ub mb del: utf8_decode.simps)
  finally show ?thesis
    unfolding enc using c by simp
qed

lemma digits3:
  fixes c :: nat
  shows "c = c div 4096 * 4096 + c div 64 mod 64 * 64 + c mod 64"
proof -
  have "c div 4096 = c div 64 div 64"
    using div_mult2_eq [of c 64 64] by simp
  moreover have "c div 64 = c div 64 div 64 * 64 + c div 64 mod 64"
    by simp
  moreover have "c = c div 64 * 64 + c mod 64"
    by simp
  ultimately show ?thesis by linarith
qed

lemma digits4:
  fixes c :: nat
  shows "c = c div 262144 * 262144 + c div 4096 mod 64 * 4096 + c div 64 mod 64 * 64 + c mod 64"
proof -
  have "c div 262144 = c div 4096 div 64"
    using div_mult2_eq [of c 4096 64] by simp
  moreover have "c div 4096 = c div 4096 div 64 * 64 + c div 4096 mod 64"
    by simp
  moreover have "c = c div 4096 * 4096 + c div 64 mod 64 * 64 + c mod 64"
    by (rule digits3)
  ultimately show ?thesis by linarith
qed

lemma utf8_rt3:
  assumes "0x800 \<le> c" and "c < 0x10000" and "\<not> (0xD800 \<le> c \<and> c \<le> 0xDFFF)"
  shows "utf8_decode 0 0 0 0x80 0xBF (utf8_encode_cp c @ rest) = c # utf8_decode 0 0 0 0x80 0xBF rest"
proof -
  define p where "p = c div 4096"
  define q where "q = c div 64 mod 64"
  define r where "r = c mod 64"
  define a :: byte where "a = of_nat (0xE0 + p)"
  define b :: byte where "b = of_nat (0x80 + q)"
  define d :: byte where "d = of_nat (0x80 + r)"
  have c: "c = p * 4096 + q * 64 + r"
    unfolding p_def q_def r_def by (rule digits3)
  have r: "r < 64" and q: "q < 64"
    by (simp_all add: q_def r_def)
  have p: "p < 16"
    using assms c by linarith
  have lo: "p = 0 \<Longrightarrow> 32 \<le> q"
    using assms c r by linarith
  have hi: "p = 13 \<Longrightarrow> q < 32"
    using assms c q r by linarith
  have enc: "utf8_encode_cp c = [a, b, d]"
    using assms by (simp add: utf8_encode_cp_def p_def q_def r_def a_def b_def d_def)
  have ua: "unat a = 0xE0 + p"
    unfolding a_def by (rule unat_byte_small) (use p in simp)
  have ub: "unat b = 0x80 + q"
    unfolding b_def by (rule unat_byte_small) (use q in simp)
  have ud: "unat d = 0x80 + r"
    unfolding d_def by (rule unat_byte_small) (use r in simp)
  have ma: "(0xE0 + p) mod 16 = p"
    using mod_shift [of p 16 14] p by simp
  have mb: "(0x80 + q) mod 64 = q"
    using mod_shift [of q 64 2] q by simp
  have md: "(0x80 + r) mod 64 = r"
    using mod_shift [of r 64 2] r by simp
  have "utf8_decode 0 0 0 0x80 0xBF (a # b # d # rest)
        = utf8_decode p 0 2 (if p = 0 then 0xA0 else 0x80) (if p = 13 then 0x9F else 0xBF) (b # d # rest)"
    using p by (subst dec_lead3) (simp_all add: ua ma del: utf8_decode.simps)
  also have "\<dots> = utf8_decode (p * 64 + q) 1 2 0x80 0xBF (d # rest)"
    using q lo hi by (subst dec_cont_more) (auto simp add: ub mb simp del: utf8_decode.simps)
  also have "\<dots> = ((p * 64 + q) * 64 + r) # utf8_decode 0 0 0 0x80 0xBF rest"
    using r by (subst dec_cont_last) (simp_all add: ud md del: utf8_decode.simps)
  finally show ?thesis
    unfolding enc using c by simp
qed

lemma utf8_rt4:
  assumes "0x10000 \<le> c" and "c < 0x110000"
  shows "utf8_decode 0 0 0 0x80 0xBF (utf8_encode_cp c @ rest) = c # utf8_decode 0 0 0 0x80 0xBF rest"
proof -
  define n where "n = c div 262144"
  define p where "p = c div 4096 mod 64"
  define q where "q = c div 64 mod 64"
  define r where "r = c mod 64"
  define a :: byte where "a = of_nat (0xF0 + n)"
  define e :: byte where "e = of_nat (0x80 + p)"
  define b :: byte where "b = of_nat (0x80 + q)"
  define d :: byte where "d = of_nat (0x80 + r)"
  have c: "c = n * 262144 + p * 4096 + q * 64 + r"
    unfolding n_def p_def q_def r_def by (rule digits4)
  have r: "r < 64" and q: "q < 64" and p: "p < 64"
    by (simp_all add: p_def q_def r_def)
  have n: "n \<le> 4"
    using assms c by linarith
  have lo: "n = 0 \<Longrightarrow> 16 \<le> p"
    using assms c q r by linarith
  have hi: "n = 4 \<Longrightarrow> p < 16"
    using assms c by linarith
  have enc: "utf8_encode_cp c = [a, e, b, d]"
    using assms by (simp add: utf8_encode_cp_def n_def p_def q_def r_def a_def e_def b_def d_def)
  have ua: "unat a = 0xF0 + n"
    unfolding a_def by (rule unat_byte_small) (use n in simp)
  have ue: "unat e = 0x80 + p"
    unfolding e_def by (rule unat_byte_small) (use p in simp)
  have ub: "unat b = 0x80 + q"
    unfolding b_def by (rule unat_byte_small) (use q in simp)
  have ud: "unat d = 0x80 + r"
    unfolding d_def by (rule unat_byte_small) (use r in simp)
  have ma: "(0xF0 + n) mod 8 = n"
    using mod_shift [of n 8 30] n by simp
  have me: "(0x80 + p) mod 64 = p"
    using mod_shift [of p 64 2] p by simp
  have mb: "(0x80 + q) mod 64 = q"
    using mod_shift [of q 64 2] q by simp
  have md: "(0x80 + r) mod 64 = r"
    using mod_shift [of r 64 2] r by simp
  have "utf8_decode 0 0 0 0x80 0xBF (a # e # b # d # rest)
        = utf8_decode n 0 3 (if n = 0 then 0x90 else 0x80) (if n = 4 then 0x8F else 0xBF) (e # b # d # rest)"
    using n by (subst dec_lead4) (simp_all add: ua ma del: utf8_decode.simps)
  also have "\<dots> = utf8_decode (n * 64 + p) 1 3 0x80 0xBF (b # d # rest)"
    using p lo hi by (subst dec_cont_more) (auto simp add: ue me simp del: utf8_decode.simps)
  also have "\<dots> = utf8_decode ((n * 64 + p) * 64 + q) 2 3 0x80 0xBF (d # rest)"
    using q by (subst dec_cont_more) (simp_all add: ub mb numeral_2_eq_2 del: utf8_decode.simps)
  also have "\<dots> = (((n * 64 + p) * 64 + q) * 64 + r) # utf8_decode 0 0 0 0x80 0xBF rest"
    using r by (subst dec_cont_last) (simp_all add: ud md del: utf8_decode.simps)
  finally show ?thesis
    unfolding enc using c by simp
qed

section \<open>The layout of the encoded packets\<close>

lemma announce_layout:
  assumes "length sid \<le> 9"
  shows "generateAnnouncePacket ts sid name ttl_arg =
         Inr (announce_fields ts sid (TextEncoder_encode name) (case ttl_arg of None \<Rightarrow> 3 | Some t \<Rightarrow> t)
              @ replicate (9 - length sid) 0)"
proof -
  define nb where "nb = TextEncoder_encode name"
  define n where "n = length nb"
  define t :: byte where "t = of_int (case ttl_arg of None \<Rightarrow> 3 | Some t \<Rightarrow> t)"
  define p0 :: bytes where "p0 = replicate (23 + n) 0"
  define p1 :: bytes where "p1 = [1] @ replicate (22 + n) 0"
  define p2 :: bytes where "p2 = [1, 1] @ replicate (21 + n) 0"
  define p3 :: bytes where "p3 = [1, 1, t] @ replicate (20 + n) 0"
  define p4 :: bytes where "p4 = ([1, 1, t] @ be_bytes 8 ts) @ replicate (12 + n) 0"
  define p5 :: bytes where "p5 = ([1, 1, t] @ be_bytes 8 ts @ [0]) @ replicate (11 + n) 0"
  define p6 :: bytes where "p6 = ([1, 1, t] @ be_bytes 8 ts @ [0] @ be_bytes 2 n) @ replicate (9 + n) 0"
  define p7 :: bytes where
    "p7 = ([1, 1, t] @ be_bytes 8 ts @ [0] @ be_bytes 2 n @ sid) @ replicate (9 - length sid + n) 0"
  define p8 :: bytes where
    "p8 = ([1, 1, t] @ be_bytes 8 ts @ [0] @ be_bytes 2 n @ sid @ nb) @ replicate (9 - length sid) 0"
  have s1: "setUint8 p0 0 0x01 = Inr p1"
    unfolding setUint8_def p0_def p1_def using write_at_zeros [of "[]" 0 "[1]" "23 + n"] by simp
  have s2: "setUint8 p1 1 0x01 = Inr p2"
    unfolding setUint8_def p1_def p2_def using write_at_zeros [of "[1]" 1 "[1]" "22 + n"] by simp
  have s3: "setUint8 p2 2 (case ttl_arg of None \<Rightarrow> 3 | Some t \<Rightarrow> t) = Inr p3"
    unfolding setUint8_def p2_def p3_def t_def
    using write_at_zeros [of "[1, 1]" 2 "[of_int (case ttl_arg of None \<Rightarrow> 3 | Some t \<Rightarrow> t)]" "21 + n"]
    by simp
  have s4: "setBigUint64 p3 3 ts = Inr p4"
    unfolding setBigUint64_def p3_def p4_def
    using write_at_zeros [of "[1, 1, t]" 3 "be_bytes 8 ts" "20 + n"] by simp
  have s5: "setUint8 p4 11 0x00 = Inr p5"
    unfolding setUint8_def p4_def p5_def
    using write_at_zeros [of "[1, 1, t] @ be_bytes 8 ts" 11 "[0]" "12 + n"] by simp
  have s6: "setUint16 p5 12 n = Inr p6"
    unfolding setUint16_def p5_def p6_def
    using write_at_zeros [of "[1, 1, t] @ be_bytes 8 ts @ [0]" 12 "be_bytes 2 n" "11 + n"] by simp
  have s7: "set_bytes p6 sid 14 = Inr p7"
    unfolding set_bytes_def p6_def p7_def
    using write_at_zeros [of "[1, 1, t] @ be_bytes 8 ts @ [0] @ be_bytes 2 n" 14 sid "9 + n"] assms
    by simp
  have s8: "set_bytes p7 nb (14 + length sid) = Inr p8"
    unfolding set_bytes_def p7_def p8_def
    using write_at_zeros [of "[1, 1, t] @ be_bytes 8 ts @ [0] @ be_bytes 2 n @ sid" "14 + length sid" nb
                             "9 - length sid + n"] assms
    by (simp add: n_def)
  have "generateAnnouncePacket ts sid name ttl_arg = Inr p8"
    unfolding generateAnnouncePacket_def Let_def ArrayBuffer_def
    using s1 s2 s3 s4 s5 s6 s7 s8
    by (simp add: nb_def [symmetric] n_def [symmetric] p0_def [symmetric])
  then show ?thesis
    by (simp add: p8_def announce_fields_def nb_def n_def t_def)
qed


lemma length_message_fields:
  "length (message_fields ts ub sid nb cb) = 14 + length ub + length nb + length cb + length sid"
  by (simp add: message_fields_def)

lemma message_record_layout:
  "generateMessageRecord ts idt sid name body =
   Inr (message_fields ts (TextEncoder_encode idt) sid (TextEncoder_encode name) (TextEncoder_encode body))"
proof -
  define ub where "ub = TextEncoder_encode idt"
  define nb where "nb = TextEncoder_encode name"
  define cb where "cb = TextEncoder_encode body"
  define u where "u = length ub"
  define n where "n = length nb"
  define c where "c = length cb"
  define l where "l = length sid"
  define ul :: byte where "ul = of_nat u"
  define nl :: byte where "nl = of_nat n"
  define sl :: byte where "sl = of_nat l"
  define f1 :: bytes where "f1 = [0x10]"
  define f2 :: bytes where "f2 = f1 @ be_bytes 8 ts"
  define f3 :: bytes where "f3 = f2 @ [ul]"
  define f4 :: bytes where "f4 = f3 @ ub"
  define f5 :: bytes where "f5 = f4 @ [nl]"
  define f6 :: bytes where "f6 = f5 @ nb"
  define f7 :: bytes where "f7 = f6 @ be_bytes 2 c"
  define f8 :: bytes where "f8 = f7 @ cb"
  define f9 :: bytes where "f9 = f8 @ [sl]"
  define f10 :: bytes where "f10 = f9 @ sid"
  note fs = f1_def f2_def f3_def f4_def f5_def f6_def f7_def f8_def f9_def f10_def
  note ls = u_def [symmetric] n_def [symmetric] c_def [symmetric] l_def [symmetric]
  define z :: "nat \<Rightarrow> bytes" where "z = (\<lambda>k. replicate k 0)"
  have zk: "replicate k 0 = z k" for k
    by (simp add: z_def)
  have s1: "setUint8 (z (14 + u + n + c + l)) 0 0x10 = Inr (f1 @ z (13 + u + n + c + l))"
    unfolding setUint8_def z_def
    using write_at_zeros [of "[]" 0 "[0x10]" "14 + u + n + c + l"] by (simp add: fs)
  have s2: "setBigUint64 (f1 @ z (13 + u + n + c + l)) 1 ts = Inr (f2 @ z (5 + u + n + c + l))"
    unfolding setBigUint64_def z_def
    using write_at_zeros [of f1 1 "be_bytes 8 ts" "13 + u + n + c + l"] by (simp add: fs)
  have s3: "setUint8 (f2 @ z (5 + u + n + c + l)) 9 (int u) = Inr (f3 @ z (4 + u + n + c + l))"
    unfolding setUint8_def z_def
    using write_at_zeros [of f2 9 "[ul]" "5 + u + n + c + l"] by (simp add: fs ul_def)
  have s4: "set_bytes (f3 @ z (4 + u + n + c + l)) ub 10 = Inr (f4 @ z (4 + n + c + l))"
    unfolding set_bytes_def z_def
    using write_at_zeros [of f3 10 ub "4 + u + n + c + l"] by (simp add: fs ls)
  have s5: "setUint8 (f4 @ z (4 + n + c + l)) (10 + u) (int n) = Inr (f5 @ z (3 + n + c + l))"
    unfolding setUint8_def z_def
    using write_at_zeros [of f4 "10 + u" "[nl]" "4 + n + c + l"] by (simp add: fs ls nl_def)
  have s6: "set_bytes (f5 @ z (3 + n + c + l)) nb (11 + u) = Inr (f6 @ z (3 + c + l))"
    unfolding set_bytes_def z_def
    using write_at_zeros [of f5 "11 + u" nb "3 + n + c + l"] by (simp add: fs ls)
  have s7: "setUint16 (f6 @ z (3 + c + l)) (11 + u + n) c = Inr (f7 @ z (1 + c + l))"
    unfolding setUint16_def z_def
    using write_at_zeros [of f6 "11 + u + n" "be_bytes 2 c" "3 + c + l"] by (simp add: fs ls)
  have s8: "set_bytes (f7 @ z (1 + c + l)) cb (13 + u + n) = Inr (f8 @ z (1 + l))"
    unfolding set_bytes_def z_def
    using write_at_zeros [of f7 "13 + u + n" cb "1 + c + l"] by (simp add: fs ls)
  have s9: "setUint8 (f8 @ z (1 + l)) (13 + u + n + c) (int l) = Inr (f9 @ z l)"
    unfolding setUint8_def z_def
    using write_at_zeros [of f8 "13 + u + n + c" "[sl]" "1 + l"] by (simp add: fs ls sl_def)
  have s10: "set_bytes (f9 @ z l) sid (14 + u + n + c) = Inr f10"
    unfolding set_bytes_def z_def
    using write_at_zeros [of f9 "14 + u + n + c" sid l] by (simp add: fs ls)
  have "generateMessageRecord ts idt sid name body = Inr f10"
    unfolding generateMessageRecord_def Let_def ArrayBuffer_def
    using s1 s2 s3 s4 s5 s6 s7 s8 s9 s10
    by (simp add: ub_def [symmetric] nb_def [symmetric] cb_def [symmetric] ls zk ac_simps)
  then show ?thesis
    by (simp add: fs message_fields_def ub_def nb_def cb_def u_def n_def c_def l_def ul_def nl_def sl_def)
qed

lemma length_announce_fields:
  "length (announce_fields ts sid nb ttl) = 14 + length sid + length nb"
  by (simp add: announce_fields_def)

lemma length_envelope_fields:
  "length (envelope_fields ts sid msg ttl) = 22 + length sid + length msg"
  by (simp add: envelope_fields_def)

lemma message_layout:
  assumes "length sid \<le> 9"
  shows "generateMessagePacket ts idt sid name body ttl_arg =
         Inr (envelope_fields ts sid
                (message_fields ts (TextEncoder_encode idt) sid (TextEncoder_encode name)
                   (TextEncoder_encode body))
                (case ttl_arg of None \<Rightarrow> 3 | Some t \<Rightarrow> t)
              @ replicate (9 - length sid) 0)"
proof -
  define msg where "msg = message_fields ts (TextEncoder_encode idt) sid (TextEncoder_encode name)
                   (TextEncoder_encode body)"
  define m where "m = length msg"
  define l where "l = length sid"
  define t :: byte where "t = of_int (case ttl_arg of None \<Rightarrow> 3 | Some t \<Rightarrow> t)"
  define z :: "nat \<Rightarrow> bytes" where "z = (\<lambda>k. replicate k 0)"
  define f1 :: bytes where "f1 = [0x01]"
  define f2 :: bytes where "f2 = f1 @ [0x04]"
  define f3 :: bytes where "f3 = f2 @ [t]"
  define f4 :: bytes where "f4 = f3 @ be_bytes 8 ts"
  define f5 :: bytes where "f5 = f4 @ [0x01]"
  define f6 :: bytes where "f6 = f5 @ be_bytes 2 m"
  define f7 :: bytes where "f7 = f6 @ sid"
  define f8 :: bytes where "f8 = f7 @ replicate 8 0xff"
  define f9 :: bytes where "f9 = f8 @ msg"
  note fs = f1_def f2_def f3_def f4_def f5_def f6_def f7_def f8_def f9_def
  note ls = m_def [symmetric] l_def [symmetric]
  have l: "l \<le> 9"
    using assms by (simp add: l_def)
  have zk: "replicate k 0 = z k" for k
    by (simp add: z_def)
  have rec: "generateMessageRecord ts idt sid name body = Inr msg"
    by (simp add: message_record_layout msg_def)
  have s1: "setUint8 (z (31 + m)) 0 0x01 = Inr (f1 @ z (30 + m))"
    unfolding setUint8_def z_def
    using write_at_zeros [of "[]" 0 "[0x01]" "31 + m"] by (simp add: fs)
  have s2: "setUint8 (f1 @ z (30 + m)) 1 0x04 = Inr (f2 @ z (29 + m))"
    unfolding setUint8_def z_def
    using write_at_zeros [of f1 1 "[0x04]" "30 + m"] by (simp add: fs)
  have s3: "setUint8 (f2 @ z (29 + m)) 2 (case ttl_arg of None \<Rightarrow> 3 | Some t \<Rightarrow> t) = Inr (f3 @ z (28 + m))"
    unfolding setUint8_def z_def
    using write_at_zeros [of f2 2 "[t]" "29 + m"] by (simp add: fs t_def)
  have s4: "setBigUint64 (f3 @ z (28 + m)) 3 ts = Inr (f4 @ z (20 + m))"
    unfolding setBigUint64_def z_def
    using write_at_zeros [of f3 3 "be_bytes 8 ts" "28 + m"] by (simp add: fs)
  have s5: "setUint8 (f4 @ z (20 + m)) 11 0x01 = Inr (f5 @ z (19 + m))"
    unfolding setUint8_def z_def
    using write_at_zeros [of f4 11 "[0x01]" "20 + m"] by (simp add: fs)
  have s6: "setUint16 (f5 @ z (19 + m)) 12 m = Inr (f6 @ z (17 + m))"
    unfolding setUint16_def z_def
    using write_at_zeros [of f5 12 "be_bytes 2 m" "19 + m"] by (simp add: fs)
  have s7: "set_bytes (f6 @ z (17 + m)) sid 14 = Inr (f7 @ z (17 - l + m))"
    unfolding set_bytes_def z_def
    using write_at_zeros [of f6 14 sid "17 + m"] l by (simp add: fs ls)
  have s8: "set_bytes (f7 @ z (17 - l + m)) (replicate 8 0xff) (14 + l) = Inr (f8 @ z (9 - l + m))"
    unfolding set_bytes_def z_def
    using write_at_zeros [of f7 "14 + l" "replicate 8 0xff" "17 - l + m"] l by (simp add: fs ls)
  have s9: "set_bytes (f8 @ z (9 - l + m)) msg (14 + l + 8) = Inr (f9 @ z (9 - l))"
    unfolding set_bytes_def z_def
    using write_at_zeros [of f8 "14 + l + 8" msg "9 - l + m"] l by (simp add: fs ls)
  have "generateMessagePacket ts idt sid name body ttl_arg = Inr (f9 @ z (9 - l))"
    unfolding generateMessagePacket_def Let_def ArrayBuffer_def rec
    using s1 s2 s3 s4 s5 s6 s7 s8 s9
    by (simp add: ls zk ac_simps)
  then show ?thesis
    by (simp add: fs envelope_fields_def msg_def m_def l_def t_def z_def)
qed

section \<open>The decoder on a packet layout and on its prefixes\<close>

lemma parse_message_take:
  fixes ts8 ml2 sid rc mts8 ub nb cl2 cb rest :: bytes
  assumes len: "length ts8 = 8" "length ml2 = 2" "length sid = 8" "length rc = 8"
      "length mts8 = 8" "length cl2 = 2"
    and ul: "unat ulb = length ub" and nl: "unat nlb = length nb" and cl: "be_val cl2 = length cb"
    and B: "B = [0x01, 0x04, t] @ ts8 @ [f] @ ml2 @ sid @ rc @ [mf] @ mts8 @ [ulb] @ ub
                @ [nlb] @ nb @ cl2 @ cb @ [slb] @ rest"
  shows "parse_try (take k B) =
         (if 44 + length ub + length nb + length cb \<le> k
          then Inr (Some \<lparr>type = ''message'', senderName = TextDecoder_decode nb,
                  content = Some (TextDecoder_decode cb), senderId = hex_string sid,
                  timestamp = be_val mts8, uid = Some (TextDecoder_decode ub)\<rparr>)
          else Inl RangeError)"
proof -
  define u where "u = length ub"
  define n where "n = length nb"
  define c where "c = length cb"
  note ls = u_def [symmetric] n_def [symmetric] c_def [symmetric]
  have r0: "read_at B 0 1 = Inr 1"
    using read_at_app [of "[]" 0 "[0x01]" 1] by (simp add: B)
  have r1: "read_at B 1 1 = Inr 4"
    using read_at_app [of "[0x01]" 1 "[0x04]" 1] by (simp add: B)
  have r2: "read_at B 2 1 = Inr (unat t)"
    using read_at_app [of "[0x01, 0x04]" 2 "[t]" 1] by (simp add: B)
  have r3: "read_at B 3 8 = Inr (be_val ts8)"
    using read_at_app [of "[0x01, 0x04, t]" 3 ts8 8] len by (simp add: B)
  have r12: "read_at B 12 2 = Inr (be_val ml2)"
    using read_at_app [of "[0x01, 0x04, t] @ ts8 @ [f]" 12 ml2 2] len by (simp add: B)
  define h where "h = [0x01, 0x04, t] @ ts8 @ [f] @ ml2 @ sid @ rc"
  have h: "length h = 30"
    using len by (simp add: h_def)
  have Bh: "B = h @ [mf] @ mts8 @ [ulb] @ ub @ [nlb] @ nb @ cl2 @ cb @ [slb] @ rest"
    by (simp add: B h_def)
  have r30: "read_at B 30 1 = Inr (unat mf)"
    using read_at_app [of h 30 "[mf]" 1] h by (simp add: Bh)
  have r31: "read_at B 31 8 = Inr (be_val mts8)"
    using read_at_app [of "h @ [mf]" 31 mts8 8] h len by (simp add: Bh)
  have r39: "read_at B 39 1 = Inr u"
    using read_at_app [of "h @ [mf] @ mts8" 39 "[ulb]" 1] h len ul by (simp add: Bh ls)
  have rn: "read_at B (40 + u) 1 = Inr n"
    using read_at_app [of "h @ [mf] @ mts8 @ [ulb] @ ub" "40 + u" "[nlb]" 1] h len nl
    by (simp add: Bh ls)
  have rc: "read_at B (41 + u + n) 2 = Inr c"
    using read_at_app [of "h @ [mf] @ mts8 @ [ulb] @ ub @ [nlb] @ nb" "41 + u + n" cl2 2] h len cl
    by (simp add: Bh ls)
  have rs: "read_at B (43 + u + n + c) 1 = Inr (unat slb)"
    using read_at_app [of "h @ [mf] @ mts8 @ [ulb] @ ub @ [nlb] @ nb @ cl2 @ cb" "43 + u + n + c" "[slb]" 1]
      h len by (simp add: Bh ls)
  have sl_id: "slice_bytes B 14 (14 + 8) = sid"
    using slice_app [of "[0x01, 0x04, t] @ ts8 @ [f] @ ml2" 14 sid 8] len by (simp add: B)
  have sl_u: "slice_bytes B 40 (40 + u) = ub"
    using slice_app [of "h @ [mf] @ mts8 @ [ulb]" 40 ub u] h len by (simp add: Bh ls)
  have sl_n: "slice_bytes B (41 + u) (41 + u + n) = nb"
    using slice_app [of "h @ [mf] @ mts8 @ [ulb] @ ub @ [nlb]" "41 + u" nb n] h len
    by (simp add: Bh ls)
  have sl_c: "slice_bytes B (43 + u + n) (43 + u + n + c) = cb"
    using slice_app [of "h @ [mf] @ mts8 @ [ulb] @ ub @ [nlb] @ nb @ cl2" "43 + u + n" cb c] h len
    by (simp add: Bh ls)
  show ?thesis
  proof (cases "44 + u + n + c \<le> k")
    case True
    then have t: "slice_bytes (take k B) 14 (14 + 8) = sid"
        "slice_bytes (take k B) 40 (40 + u) = ub"
        "slice_bytes (take k B) (41 + u) (41 + u + n) = nb"
        "slice_bytes (take k B) (43 + u + n) (43 + u + n + c) = cb"
      using sl_id sl_u sl_n sl_c by (simp_all add: slice_take)
    from True show ?thesis
      unfolding parse_try_def parseMessage_def getUint8_def getUint16_def getBigUint64_def Let_def
      using t r0 r1 r2 r3 r12 r30 r31 r39 rn rc rs
      by (simp add: read_at_take ls ac_simps numeral_2_eq_2 numeral_3_eq_3)
  next
    case False
    then show ?thesis
      unfolding parse_try_def parseMessage_def getUint8_def getUint16_def getBigUint64_def Let_def
      using r0 r1 r2 r3 r12 r30 r31 r39 rn rc rs
      by (simp add: read_at_take ls ac_simps numeral_2_eq_2 numeral_3_eq_3)
  qed
qed


lemma parse_announce_take:
  fixes ts8 nl2 rest :: bytes
  assumes len: "length ts8 = 8" "length nl2 = 2"
    and B: "B = [0x01, 0x01, t] @ ts8 @ [f] @ nl2 @ rest"
  shows "parse_try (take k B) =
         (if 14 \<le> k
          then Inr (Some \<lparr>type = ''announce'',
                  senderName = TextDecoder_decode (take (be_val nl2) (drop 8 (take (k - 14) rest))),
                  content = None, senderId = hex_string (take 8 (take (k - 14) rest)),
                  timestamp = be_val ts8, uid = None\<rparr>)
          else Inl RangeError)"
proof -
  have r0: "read_at B 0 1 = Inr 1"
    using read_at_app [of "[]" 0 "[0x01]" 1] by (simp add: B)
  have r1: "read_at B 1 1 = Inr 1"
    using read_at_app [of "[0x01]" 1 "[0x01]" 1] by (simp add: B)
  have r2: "read_at B 2 1 = Inr (unat t)"
    using read_at_app [of "[0x01, 0x01]" 2 "[t]" 1] by (simp add: B)
  have r3: "read_at B 3 8 = Inr (be_val ts8)"
    using read_at_app [of "[0x01, 0x01, t]" 3 ts8 8] len by (simp add: B)
  have r12: "read_at B 12 2 = Inr (be_val nl2)"
    using read_at_app [of "[0x01, 0x01, t] @ ts8 @ [f]" 12 nl2 2] len by (simp add: B)
  define h where "h = [0x01, 0x01, t] @ ts8 @ [f] @ nl2"
  have h: "length h = 14" and Bh: "B = h @ rest"
    using len by (simp_all add: h_def B)
  have d14: "14 \<le> k \<Longrightarrow> drop 14 (take k B) = take (k - 14) rest"
    using h by (simp add: Bh drop_take)
  have sl: "14 \<le> k \<Longrightarrow> slice_bytes (take k B) 14 22 = take 8 (take (k - 14) rest)"
           "14 \<le> k \<Longrightarrow> slice_bytes (take k B) 22 (22 + m) = take m (drop 8 (take (k - 14) rest))" for m
  proof -
    assume k: "14 \<le> k"
    show "slice_bytes (take k B) 14 22 = take 8 (take (k - 14) rest)"
      using d14 [OF k] by (simp add: slice_bytes_def)
    have "drop 22 (take k B) = drop 8 (drop 14 (take k B))"
      by simp
    then show "slice_bytes (take k B) 22 (22 + m) = take m (drop 8 (take (k - 14) rest))"
      using d14 [OF k] by (simp add: slice_bytes_def del: drop_drop drop_take)
  qed
  show ?thesis
  proof (cases "14 \<le> k")
    case True
    then show ?thesis
      unfolding parse_try_def parseAnnounce_def getUint8_def getUint16_def getBigUint64_def Let_def
      using sl [OF True] r0 r1 r2 r3 r12
      by (simp add: read_at_take ac_simps numeral_2_eq_2 numeral_3_eq_3)
  next
    case False
    then show ?thesis
      unfolding parse_try_def parseAnnounce_def getUint8_def getUint16_def getBigUint64_def Let_def
      using r0 r1 r2 r3 r12
      by (simp add: read_at_take ac_simps numeral_2_eq_2 numeral_3_eq_3)
  qed
qed

lemma be_val_be_bytes: "be_val (be_bytes k v) = v mod 256 ^ k"
proof (induction k)
  case 0
  show ?case by simp
next
  case (Suc k)
  have "v mod (256 ^ k * 256) = 256 ^ k * (v div 256 ^ k mod 256) + v mod 256 ^ k"
    by (rule mod_mult2_eq)
  with Suc show ?case
    by (simp add: unat_of_nat mult.commute)
qed

lemma utf8_roundtrip_cp:
  assumes "is_scalar c"
  shows "utf8_decode 0 0 0 0x80 0xBF (utf8_encode_cp c @ rest) = c # utf8_decode 0 0 0 0x80 0xBF rest"
proof -
  consider "c < 0x80" | "0x80 \<le> c" "c < 0x800" | "0x800 \<le> c" "c < 0x10000" | "0x10000 \<le> c"
    by linarith
  then show ?thesis
  proof cases
    case 1
    then show ?thesis by (rule utf8_rt1)
  next
    case 2
    then show ?thesis by (rule utf8_rt2)
  next
    case 3
    with assms show ?thesis by (intro utf8_rt3) (simp_all add: is_scalar_def)
  next
    case 4
    with assms show ?thesis by (intro utf8_rt4) (simp_all add: is_scalar_def)
  qed
qed

lemma to_scalar_id: "is_scalar c \<Longrightarrow> to_scalar c = c"
  by (simp add: is_scalar_def to_scalar_def)

lemma utf8_roundtrip:
  "well_formed s \<Longrightarrow> utf8_decode 0 0 0 0x80 0xBF (TextEncoder_encode s) = s"
proof (induction s)
  case Nil
  show ?case by (simp add: TextEncoder_encode_def)
next
  case (Cons c s)
  then have c: "is_scalar c" and s: "well_formed s"
    by (simp_all add: well_formed_def)
  have "TextEncoder_encode (c # s) = utf8_encode_cp c @ TextEncoder_encode s"
    using c by (simp add: TextEncoder_encode_def to_scalar_id)
  then show ?case
    using utf8_roundtrip_cp [OF c, of "TextEncoder_encode s"] Cons.IH [OF s] by simp
qed

lemma TextDecoder_roundtrip:
  "well_formed s \<Longrightarrow> \<not> starts_with_bom s \<Longrightarrow> TextDecoder_decode (TextEncoder_encode s) = s"
  by (cases s) (simp_all add: TextDecoder_decode_def utf8_roundtrip starts_with_bom_def)

lemma TextDecoder_drops_bom:
  "well_formed s \<Longrightarrow> starts_with_bom s \<Longrightarrow> TextDecoder_decode (TextEncoder_encode s) = tl s"
  by (cases s) (simp_all add: TextDecoder_decode_def utf8_roundtrip starts_with_bom_def)

lemma announce_take_decode:
  assumes sid: "length sid = 8"
  shows "parse_try (take k (announce_fields ts sid nb ttl @ pad)) =
         (if 14 \<le> k
          then Inr (Some \<lparr>type = ''announce'',
                  senderName = TextDecoder_decode (take (min (length nb mod 65536) (k - 22)) nb),
                  content = None, senderId = hex_string (take (k - 14) sid),
                  timestamp = ts mod 2 ^ 64, uid = None\<rparr>)
          else Inl RangeError)"
proof -
  define j where "j = length nb mod 65536"
  have j: "j \<le> length nb"
    unfolding j_def by (rule mod_less_eq_dividend)
  have B: "announce_fields ts sid nb ttl @ pad =
           [0x01, 0x01, of_int ttl] @ be_bytes 8 ts @ [0x00] @ be_bytes 2 (length nb) @ (sid @ nb @ pad)"
    by (simp add: announce_fields_def)
  have a: "take 8 (take (k - 14) (sid @ nb @ pad)) = take (k - 14) sid"
    using sid by (simp add: min_def)
  have "drop 8 (take (k - 14) (sid @ nb @ pad)) = take (k - 14 - 8) (drop 8 (sid @ nb @ pad))"
    by (rule drop_take)
  also have "drop 8 (sid @ nb @ pad) = nb @ pad"
    using sid by simp
  also have "k - 14 - 8 = k - 22"
    by simp
  finally have d: "drop 8 (take (k - 14) (sid @ nb @ pad)) = take (k - 22) (nb @ pad)" .
  have "take j (take (k - 22) (nb @ pad)) = take (min j (k - 22)) (nb @ pad)"
    by (rule take_take)
  also have "\<dots> = take (min j (k - 22)) nb"
    using j by simp
  finally have b: "take j (drop 8 (take (k - 14) (sid @ nb @ pad))) = take (min j (k - 22)) nb"
    unfolding d .
  have v: "be_val (be_bytes 2 (length nb)) = j" "be_val (be_bytes 8 ts) = ts mod 2 ^ 64"
    by (simp_all add: be_val_be_bytes j_def)
  show ?thesis
    unfolding j_def [symmetric]
    using parse_announce_take [OF _ _ B, of k] a b
    by (simp only: v length_be_bytes)
qed


lemma message_take_decode:
  assumes sid: "length sid = 8" and u: "length ub \<le> 255" and n: "length nb \<le> 255"
    and c: "length cb \<le> 65535"
  shows "parse_try (take k (envelope_fields ts sid (message_fields ts ub sid nb cb) ttl @ pad)) =
         (if 44 + length ub + length nb + length cb \<le> k
          then Inr (Some \<lparr>type = ''message'', senderName = TextDecoder_decode nb,
                  content = Some (TextDecoder_decode cb), senderId = hex_string sid,
                  timestamp = ts mod 2 ^ 64, uid = Some (TextDecoder_decode ub)\<rparr>)
          else Inl RangeError)"
proof -
  define msg where "msg = message_fields ts ub sid nb cb"
  have B: "envelope_fields ts sid msg ttl @ pad =
           [0x01, 0x04, of_int ttl] @ be_bytes 8 ts @ [0x01] @ be_bytes 2 (length msg) @ sid
           @ replicate 8 0xff @ [0x10] @ be_bytes 8 ts @ [of_nat (length ub)] @ ub
           @ [of_nat (length nb)] @ nb @ be_bytes 2 (length cb) @ cb @ [of_nat (length sid)]
           @ (sid @ pad)"
    by (simp add: envelope_fields_def msg_def message_fields_def)
  have ul: "unat (of_nat (length ub) :: byte) = length ub"
    using u by (intro unat_byte_small) simp
  have nl: "unat (of_nat (length nb) :: byte) = length nb"
    using n by (intro unat_byte_small) simp
  have "length cb < 65536"
    using c by simp
  then have cl: "be_val (be_bytes 2 (length cb)) = length cb"
    by (simp add: be_val_be_bytes)
  have v: "be_val (be_bytes 8 ts) = ts mod 2 ^ 64"
    by (simp add: be_val_be_bytes)
  have "length (be_bytes 8 ts) = 8" "length (be_bytes 2 (length msg)) = 2"
       "length (replicate 8 (0xff :: byte)) = 8" "length (be_bytes 2 (length cb)) = 2"
    by simp_all
  from parse_message_take [OF this(1) this(2) sid this(3) this(1) this(4) ul nl cl B, of k]
  show ?thesis
    by (simp only: v msg_def)
qed

lemma parseReceived_announce_take:
  assumes "length sid = 8"
  shows "parse_try_catch (take k (announce_fields ts sid nb ttl @ pad)) =
         (if 14 \<le> k
          then Some \<lparr>type = ''announce'',
                  senderName = TextDecoder_decode (take (min (length nb mod 65536) (k - 22)) nb),
                  content = None, senderId = hex_string (take (k - 14) sid),
                  timestamp = ts mod 2 ^ 64, uid = None\<rparr>
          else None)"
  unfolding parse_try_catch_def announce_take_decode [OF assms] by simp

lemma parseReceived_message_take:
  assumes "length sid = 8" and "length ub \<le> 255" and "length nb \<le> 255" and "length cb \<le> 65535"
  shows "parse_try_catch (take k (envelope_fields ts sid (message_fields ts ub sid nb cb) ttl @ pad)) =
         (if 44 + length ub + length nb + length cb \<le> k
          then Some \<lparr>type = ''message'', senderName = TextDecoder_decode nb,
                  content = Some (TextDecoder_decode cb), senderId = hex_string sid,
                  timestamp = ts mod 2 ^ 64, uid = Some (TextDecoder_decode ub)\<rparr>
          else None)"
  unfolding parse_try_catch_def message_take_decode [OF assms] by simp

lemma take_all_self: "take (length xs) xs = xs"
  by simp

lemma parseReceived_announce:
  assumes "length sid = 8"
  shows "parse_try_catch (announce_fields ts sid nb ttl @ pad) =
         Some \<lparr>type = ''announce'',
                  senderName = TextDecoder_decode (take (length nb mod 65536) nb),
                  content = None, senderId = hex_string sid,
                  timestamp = ts mod 2 ^ 64, uid = None\<rparr>"
proof -
  define B where "B = announce_fields ts sid nb ttl @ pad"
  define j where "j = length nb mod 65536"
  have j: "j \<le> length nb"
    unfolding j_def by (rule mod_less_eq_dividend)
  have l: "length B = 22 + length nb + length pad"
    using assms by (simp add: B_def length_announce_fields)
  have "min j (length B - 22) = j"
    using j l by simp
  moreover have "14 \<le> length B" "take (length B - 14) sid = sid"
    using l assms by simp_all
  ultimately show ?thesis
    using parseReceived_announce_take [OF assms, of "length B" ts nb ttl pad]
    unfolding B_def [symmetric] j_def [symmetric] by (simp only: take_all_self if_True)
qed

lemma parseReceived_message:
  assumes "length sid = 8" and "length ub \<le> 255" and "length nb \<le> 255" and "length cb \<le> 65535"
  shows "parse_try_catch (envelope_fields ts sid (message_fields ts ub sid nb cb) ttl @ pad) =
         Some \<lparr>type = ''message'', senderName = TextDecoder_decode nb,
                  content = Some (TextDecoder_decode cb), senderId = hex_string sid,
                  timestamp = ts mod 2 ^ 64, uid = Some (TextDecoder_decode ub)\<rparr>"
proof -
  define B where "B = envelope_fields ts sid (message_fields ts ub sid nb cb) ttl @ pad"
  have "length B = 52 + length ub + length nb + length cb + length pad"
    using assms by (simp add: B_def length_envelope_fields length_message_fields)
  then have "44 + length ub + length nb + length cb \<le> length B"
    by simp
  then show ?thesis
    using parseReceived_message_take [OF assms, of "length B" ts ttl pad]
    unfolding B_def [symmetric] by (simp only: take_all_self if_True)
qed

section \<open>The argument of the decoder\<close>

lemma parseReceivedPacket_view:
  "parseReceivedPacket (view_of bs) = Inr (parse_try_catch bs)"
  by (simp add: parseReceivedPacket_def get_buffer_def new_DataView_def new_Uint8Array_def
      ebind_def)

lemma parseReceivedPacket_no_buffer:
  assumes "\<forall>bs. data \<noteq> view_of bs"
  shows "parseReceivedPacket data = Inl TypeError"
proof (cases data)
  case Nullish
  then show ?thesis
    by (simp add: parseReceivedPacket_def get_buffer_def ebind_def)
next
  case (HasBuffer b)
  with assms show ?thesis
    by (cases b)
      (simp_all add: parseReceivedPacket_def get_buffer_def new_DataView_def ebind_def)
qed

section \<open>Unrecognised packets\<close>

lemma unat_byte_eq: "unat (b :: byte) = unat (c :: byte) \<longleftrightarrow> b = c"
  by (simp add: word_unat_eq_iff)

lemma unknown_type_try:
  assumes "take 2 data \<noteq> [0x01, 0x01]" and "take 2 data \<noteq> [0x01, 0x04]"
  shows "parse_try data = (if length data < 2 then Inl RangeError else Inr None)"
proof (cases data)
  case Nil
  then show ?thesis
    by (simp add: parse_try_def getUint8_def read_at_def)
next
  case (Cons a as)
  show ?thesis
  proof (cases as)
    case Nil
    with Cons show ?thesis
      by (simp add: parse_try_def getUint8_def read_at_def)
  next
    case (Cons b bs)
    with \<open>data = a # as\<close> assms have "\<not> (a = 1 \<and> b = 1)" "\<not> (a = 1 \<and> b = 4)"
      by simp_all
    moreover have "unat a = 1 \<longleftrightarrow> a = 1" "unat b = 1 \<longleftrightarrow> b = 1" "unat b = 4 \<longleftrightarrow> b = 4"
      using unat_byte_eq [of a 1] unat_byte_eq [of b 1] unat_byte_eq [of b 4] by simp_all
    ultimately show ?thesis
      using Cons \<open>data = a # as\<close>
      by (auto simp add: parse_try_def getUint8_def read_at_def Let_def)
  qed
qed


text \<open>
  C3. A buffer whose first two bytes are not \<open>(0x01, 0x01)\<close> or \<open>(0x01, 0x04)\<close> is
  answered with \<^verbatim>\<open>null\<close>, the value the decoder has for an unrecognised packet, and
  no exception leaves \<open>parseReceivedPacket\<close>; when the buffer holds the two bytes, the
  \<^verbatim>\<open>try\<close> block itself completes without raising and reaches its final
  \<^verbatim>\<open>return null\<close>.
\<close>

theorem unknown_type_returns_null:
  assumes "take 2 data \<noteq> [0x01, 0x01]" and "take 2 data \<noteq> [0x01, 0x04]"
  shows "parseReceivedPacket (view_of data) = Inr None
         \<and> (2 \<le> length data \<longrightarrow> parse_try data = Inr None)"
  using unknown_type_try [OF assms] by (simp add: parseReceivedPacket_view parse_try_catch_def)

theorem unknown_type_returns_null_witness:
  "take 2 [0x02, 0x07, 0x01 :: byte] \<noteq> [0x01, 0x01] \<and> take 2 [0x02, 0x07, 0x01 :: byte] \<noteq> [0x01, 0x04]
   \<and> parseReceivedPacket (view_of [0x02, 0x07, 0x01]) = Inr None
   \<and> parse_try [0x02, 0x07, 0x01] = Inr None"
proof -
  have a: "take 2 [0x02, 0x07, 0x01 :: byte] \<noteq> [0x01, 0x01]"
    and b: "take 2 [0x02, 0x07, 0x01 :: byte] \<noteq> [0x01, 0x04]"
    by simp_all
  show ?thesis
    using a b unknown_type_returns_null [OF a b] by simp
qed

section \<open>Exceptions inside the decoder\<close>

lemma read_at_error: "read_at buf off n = Inl e \<Longrightarrow> e = RangeError"
  by (simp add: read_at_def split: if_splits)

lemma ebind_error:
  assumes "ebind m f = Inl e"
  obtains "m = Inl e" | x where "m = Inr x" and "f x = Inl e"
  using assms by (cases m) (simp_all add: ebind_def)

lemma parseAnnounce_error: "parseAnnounce buf off = Inl e \<Longrightarrow> e = RangeError"
  unfolding parseAnnounce_def getUint8_def getUint16_def getBigUint64_def Let_def
  by (elim ebind_error) (auto dest: read_at_error)

lemma parseMessage_error: "parseMessage buf off = Inl e \<Longrightarrow> e = RangeError"
  unfolding parseMessage_def getUint8_def getUint16_def getBigUint64_def Let_def
  by (elim ebind_error) (auto dest: read_at_error)

lemma parse_try_error: "parse_try data = Inl e \<Longrightarrow> e = RangeError"
  unfolding parse_try_def getUint8_def Let_def
  by (elim ebind_error) (auto dest: read_at_error parseAnnounce_error parseMessage_error split: if_splits)

lemma parse_try_short: "length data < 2 \<Longrightarrow> parse_try data = Inl RangeError"
  by (cases data) (auto simp add: parse_try_def getUint8_def read_at_def)

text \<open>
  C10. Called on a view of a buffer, whatever bytes the buffer holds and however few,
  \<open>parseReceivedPacket\<close> returns: with \<^verbatim>\<open>null\<close> or with a record, and with no
  exception passed to the caller. The \<^verbatim>\<open>try\<close> block raises on some buffers (on every
  buffer shorter than two bytes, for one); what it raises is the \<^verbatim>\<open>RangeError\<close> of a
  \<^verbatim>\<open>DataView\<close> read outside the buffer, and the function then returns \<^verbatim>\<open>null\<close>;
  when the block returns, the function returns the block's value. The views are what
  the statement needs of the argument: the function returns exactly on the arguments
  whose \<open>buffer\<close> is a live \<^verbatim>\<open>ArrayBuffer\<close>, and on every other argument the
  constructor calls before the \<^verbatim>\<open>try\<close> pass a \<^verbatim>\<open>TypeError\<close> to the caller.
\<close>

theorem decode_total:
  "(\<exists>r. parseReceivedPacket (view_of bs) = Inr r)
   \<and> (\<forall>e. parse_try bs = Inl e \<longrightarrow> e = RangeError \<and> parseReceivedPacket (view_of bs) = Inr None)
   \<and> (\<forall>r. parse_try bs = Inr r \<longrightarrow> parseReceivedPacket (view_of bs) = Inr r)
   \<and> (length bs < 2 \<longrightarrow> parse_try bs = Inl RangeError)
   \<and> ((\<exists>r. parseReceivedPacket data = Inr r) \<longleftrightarrow> (\<exists>buf. data = view_of buf))
   \<and> ((\<forall>buf. data \<noteq> view_of buf) \<longrightarrow> parseReceivedPacket data = Inl TypeError)"
proof -
  have "\<exists>r. parseReceivedPacket (view_of bs) = Inr r"
    by (simp add: parseReceivedPacket_view)
  moreover have "\<forall>e. parse_try bs = Inl e \<longrightarrow>
      e = RangeError \<and> parseReceivedPacket (view_of bs) = Inr None"
    by (auto dest: parse_try_error simp add: parseReceivedPacket_view parse_try_catch_def)
  moreover have "\<forall>r. parse_try bs = Inr r \<longrightarrow> parseReceivedPacket (view_of bs) = Inr r"
    by (simp add: parseReceivedPacket_view parse_try_catch_def)
  moreover have "length bs < 2 \<longrightarrow> parse_try bs = Inl RangeError"
    by (simp add: parse_try_short)
  moreover have n: "(\<forall>buf. data \<noteq> view_of buf) \<longrightarrow> parseReceivedPacket data = Inl TypeError"
    by (simp add: parseReceivedPacket_no_buffer)
  moreover have "(\<exists>r. parseReceivedPacket data = Inr r) \<longleftrightarrow> (\<exists>buf. data = view_of buf)"
  proof
    assume "\<exists>r. parseReceivedPacket data = Inr r"
    with n show "\<exists>buf. data = view_of buf"
      by auto
  next
    assume "\<exists>buf. data = view_of buf"
    then show "\<exists>r. parseReceivedPacket data = Inr r"
      by (auto simp add: parseReceivedPacket_view)
  qed
  ultimately show ?thesis by blast
qed

theorem decode_total_witness:
  "length [0x01 :: byte] < 2 \<and> parse_try [0x01] = Inl RangeError
   \<and> parseReceivedPacket (view_of [0x01]) = Inr None
   \<and> parse_try [0x02, 0x07, 0x01] = Inr None
   \<and> parseReceivedPacket (view_of [0x02, 0x07, 0x01]) = Inr None
   \<and> (\<forall>buf. HasBuffer DetachedBuffer \<noteq> view_of buf)
   \<and> parseReceivedPacket (HasBuffer DetachedBuffer) = Inl TypeError
   \<and> parseReceivedPacket Nullish = Inl TypeError
   \<and> parseReceivedPacket (HasBuffer NotArrayBuffer) = Inl TypeError"
proof -
  have l: "length [0x01 :: byte] < 2"
    by simp
  from decode_total [of "[0x01]" "HasBuffer DetachedBuffer"]
  have t: "parse_try [0x01] = Inl RangeError"
    and n: "\<forall>e. parse_try [0x01] = Inl e \<longrightarrow>
              e = RangeError \<and> parseReceivedPacket (view_of [0x01]) = Inr None"
    and d: "(\<forall>buf. HasBuffer DetachedBuffer \<noteq> view_of buf) \<longrightarrow>
              parseReceivedPacket (HasBuffer DetachedBuffer) = Inl TypeError"
    using l by blast+
  from n t have 1: "parseReceivedPacket (view_of [0x01]) = Inr None"
    by blast
  have 2: "\<forall>buf. HasBuffer DetachedBuffer \<noteq> view_of buf"
    by simp
  with d have 3: "parseReceivedPacket (HasBuffer DetachedBuffer) = Inl TypeError"
    by blast
  from decode_total [of "[]" Nullish]
  have 4: "parseReceivedPacket Nullish = Inl TypeError"
    by simp
  from decode_total [of "[]" "HasBuffer NotArrayBuffer"]
  have 5: "parseReceivedPacket (HasBuffer NotArrayBuffer) = Inl TypeError"
    by simp
  have 6: "parse_try [0x02, 0x07, 0x01] = Inr None"
    using unknown_type_try [of "[0x02, 0x07, 0x01]"] by simp
  from decode_total [of "[0x02, 0x07, 0x01]" Nullish]
  have "\<forall>r. parse_try [0x02, 0x07, 0x01] = Inr r \<longrightarrow>
          parseReceivedPacket (view_of [0x02, 0x07, 0x01]) = Inr r"
    by blast
  with 6 have 7: "parseReceivedPacket (view_of [0x02, 0x07, 0x01]) = Inr None"
    by blast
  from l t 1 2 3 4 5 6 7 show ?thesis by simp
qed

section \<open>Encoding, then decoding\<close>

lemma announce_packet:
  assumes "length sid = 8"
  shows "generateAnnouncePacket ts sid name ttl_arg =
         Inr (announce_fields ts sid (TextEncoder_encode name)
                (case ttl_arg of None \<Rightarrow> 3 | Some t \<Rightarrow> t) @ [0])"
  using announce_layout [of sid ts name ttl_arg] assms by (simp add: numeral_eq_Suc)

lemma message_packet:
  assumes "length sid = 8"
  shows "generateMessagePacket ts idt sid name body ttl_arg =
         Inr (envelope_fields ts sid
                (message_fields ts (TextEncoder_encode idt) sid (TextEncoder_encode name)
                   (TextEncoder_encode body))
                (case ttl_arg of None \<Rightarrow> 3 | Some t \<Rightarrow> t) @ [0])"
  using message_layout [of sid ts idt name body ttl_arg] assms by (simp add: numeral_eq_Suc)

lemma decode_encoded_Inr [simp]: "decode_encoded (Inr p) = Inr (parse_try_catch p)"
  by (simp add: decode_encoded_def parseReceivedPacket_view)

subsection \<open>The \<open>ttl\<close> byte\<close>

lemma read_at_skip3:
  "3 \<le> off \<Longrightarrow> read_at (a # b # t # rest) off n = read_at rest (off - 3) n"
proof -
  assume "3 \<le> off"
  then obtain j where j: "off = 3 + j"
    using le_Suc_ex by blast
  have "drop (3 + j) (a # b # t # rest) = drop j rest"
    by (simp add: numeral_3_eq_3)
  then show ?thesis
    unfolding j by (auto simp add: read_at_def)
qed

lemma slice_skip3:
  "3 \<le> st \<Longrightarrow> slice_bytes (a # b # t # rest) st en = slice_bytes rest (st - 3) (en - 3)"
proof -
  assume "3 \<le> st"
  then obtain j where j: "st = 3 + j"
    using le_Suc_ex by blast
  have "drop (3 + j) (a # b # t # rest) = drop j rest"
    by (simp add: numeral_3_eq_3)
  then show ?thesis
    unfolding j by (simp add: slice_bytes_def)
qed

lemma read_at_third:
  "read_at (a # b # t # rest) (Suc (Suc 0)) (Suc 0) = Inr (unat t)"
  by (simp add: read_at_def)

lemma read_at_first: "read_at (a # rest) 0 (Suc 0) = Inr (unat a)"
  by (simp add: read_at_def)

lemma read_at_second: "read_at (a # b # rest) (Suc 0) (Suc 0) = Inr (unat b)"
  by (simp add: read_at_def)

lemma parse_try_ignores_ttl:
  "parse_try (a # b # t # rest) = parse_try (a # b # t' # rest)"
  unfolding parse_try_def parseAnnounce_def parseMessage_def getUint8_def getUint16_def
    getBigUint64_def Let_def
  by (simp add: read_at_first read_at_second read_at_third read_at_skip3 slice_skip3 cong: if_cong)


lemma announce_fields_Cons:
  "announce_fields ts sid nb ttl @ pad =
   0x01 # 0x01 # of_int ttl # (be_bytes 8 ts @ [0x00] @ be_bytes 2 (length nb) @ sid @ nb @ pad)"
  by (simp add: announce_fields_def)

lemma envelope_fields_Cons:
  "envelope_fields ts sid msg ttl @ pad =
   0x01 # 0x04 # of_int ttl
   # (be_bytes 8 ts @ [0x01] @ be_bytes 2 (length msg) @ sid @ replicate 8 0xff @ msg @ pad)"
  by (simp add: envelope_fields_def)

lemma slice_third: "slice_bytes (a # b # t # rest) 2 3 = [t]"
  by (simp add: slice_bytes_def numeral_2_eq_2)

lemma parseReceived_ignores_ttl:
  "parse_try_catch (a # b # t # rest) = parse_try_catch (a # b # t' # rest)"
  by (simp add: parse_try_catch_def parse_try_ignores_ttl [of a b t rest t'])

lemma example_encode_Alice:
  "TextEncoder_encode [65, 108, 105, 99, 101] = [65, 108, 105, 99, 101]"
  by (simp add: TextEncoder_encode_def utf8_encode_cp_def to_scalar_def)

lemma example_decode_Alice:
  "TextDecoder_decode [65, 108, 105, 99, 101] = [65, 108, 105, 99, 101]"
  by (simp add: TextDecoder_decode_def)

lemma example_hex: "hex_string [1, 2, 3, 4, 5, 6, 7, 8] = ''0102030405060708''"
  by (simp add: hex_string_def hex_digit_def)

lemma example_announce_decoded:
  "decode_encoded (generateAnnouncePacket 1000 [1, 2, 3, 4, 5, 6, 7, 8] [65, 108, 105, 99, 101] (Some t)) =
   Inr (Some \<lparr>type = ''announce'', senderName = [65, 108, 105, 99, 101], content = None,
              senderId = ''0102030405060708'', timestamp = 1000, uid = None\<rparr>)"
proof -
  have l: "length [1, 2, 3, 4, 5, 6, 7, 8 :: byte] = 8"
    by simp
  show ?thesis
    unfolding announce_packet [OF l] decode_encoded_Inr parseReceived_announce [OF l]
      example_encode_Alice
    by (simp add: example_decode_Alice example_hex)
qed

text \<open>
  C6, as the code has it. The encoders write the \<open>ttl\<close> argument (reduced modulo 256) at
  byte offset 2 of the packet. The decoder reads that byte and drops it: the record it
  returns has no \<open>ttl\<close> field, and two packets that differ only in their \<open>ttl\<close> decode
  to the same result.
\<close>

theorem ttl_written_but_not_returned:
  assumes "length sid = 8"
  shows "(\<exists>p p'. generateAnnouncePacket ts sid name (Some ttl) = Inr p
            \<and> generateAnnouncePacket ts sid name (Some ttl') = Inr p'
            \<and> slice_bytes p 2 3 = [of_int ttl]
            \<and> parseReceivedPacket (view_of p) = parseReceivedPacket (view_of p'))
       \<and> (\<exists>p p'. generateMessagePacket ts idt sid name body (Some ttl) = Inr p
            \<and> generateMessagePacket ts idt sid name body (Some ttl') = Inr p'
            \<and> slice_bytes p 2 3 = [of_int ttl]
            \<and> parseReceivedPacket (view_of p) = parseReceivedPacket (view_of p'))"
proof -
  have "\<exists>p p'. generateAnnouncePacket ts sid name (Some ttl) = Inr p
            \<and> generateAnnouncePacket ts sid name (Some ttl') = Inr p'
            \<and> slice_bytes p 2 3 = [of_int ttl]
            \<and> parseReceivedPacket (view_of p) = parseReceivedPacket (view_of p')"
    unfolding announce_packet [OF assms] announce_fields_Cons
    by (simp add: slice_third parseReceivedPacket_view
        parseReceived_ignores_ttl [of _ _ "of_int ttl" _ "of_int ttl'"])
  moreover have "\<exists>p p'. generateMessagePacket ts idt sid name body (Some ttl) = Inr p
            \<and> generateMessagePacket ts idt sid name body (Some ttl') = Inr p'
            \<and> slice_bytes p 2 3 = [of_int ttl]
            \<and> parseReceivedPacket (view_of p) = parseReceivedPacket (view_of p')"
    unfolding message_packet [OF assms] envelope_fields_Cons
    by (simp add: slice_third parseReceivedPacket_view
        parseReceived_ignores_ttl [of _ _ "of_int ttl" _ "of_int ttl'"])
  ultimately show ?thesis by blast
qed

theorem ttl_written_but_not_returned_witness:
  "length [1, 2, 3, 4, 5, 6, 7, 8 :: byte] = 8
   \<and> (\<exists>p p'. generateAnnouncePacket 1000 [1, 2, 3, 4, 5, 6, 7, 8] [65, 108, 105, 99, 101] (Some 3) = Inr p
         \<and> generateAnnouncePacket 1000 [1, 2, 3, 4, 5, 6, 7, 8] [65, 108, 105, 99, 101] (Some 7) = Inr p'
         \<and> slice_bytes p 2 3 = [3]
         \<and> parseReceivedPacket (view_of p) = parseReceivedPacket (view_of p'))"
proof -
  have l: "length [1, 2, 3, 4, 5, 6, 7, 8 :: byte] = 8"
    by simp
  from ttl_written_but_not_returned [OF l, of 1000 "[65, 108, 105, 99, 101]" 3 7]
  show ?thesis
    using l by simp
qed

theorem ttl_in_record_counterexample:
  "decode_encoded (generateAnnouncePacket 1000 [1, 2, 3, 4, 5, 6, 7, 8] [65, 108, 105, 99, 101] (Some 3)) =
     Inr (Some \<lparr>type = ''announce'', senderName = [65, 108, 105, 99, 101], content = None,
                senderId = ''0102030405060708'', timestamp = 1000, uid = None\<rparr>)
   \<and> decode_encoded (generateAnnouncePacket 1000 [1, 2, 3, 4, 5, 6, 7, 8] [65, 108, 105, 99, 101] (Some 7)) =
     Inr (Some \<lparr>type = ''announce'', senderName = [65, 108, 105, 99, 101], content = None,
                senderId = ''0102030405060708'', timestamp = 1000, uid = None\<rparr>)"
  by (simp only: example_announce_decoded)

subsection \<open>The round trip\<close>

text \<open>The hexadecimal form determines the bytes: two byte sequences with the same
  \<open>hex_string\<close> are equal.\<close>

lemma hex_digit_inject:
  assumes "m < 16" and "n < 16" and "hex_digit m = hex_digit n"
  shows "m = n"
proof -
  have d: "distinct ''0123456789abcdef''"
    by simp
  have l: "length ''0123456789abcdef'' = 16"
    by simp
  from assms have "''0123456789abcdef'' ! m = ''0123456789abcdef'' ! n"
    by (simp add: hex_digit_def)
  with nth_eq_iff_index_eq [OF d, of m n] assms(1,2) l show ?thesis
    by simp
qed

lemma hex_byte_inject:
  fixes a b :: byte
  assumes "hex_digit (unat a div 16) = hex_digit (unat b div 16)"
    and "hex_digit (unat a mod 16) = hex_digit (unat b mod 16)"
  shows "a = b"
proof -
  define p where "p = unat a div 16"
  define q where "q = unat b div 16"
  define r where "r = unat a mod 16"
  define t where "t = unat b mod 16"
  have a: "unat a = p * 16 + r" and b: "unat b = q * 16 + t"
    by (simp_all add: p_def q_def r_def t_def)
  have rt: "r < 16" "t < 16"
    by (simp_all add: r_def t_def)
  have "unat a < 256" "unat b < 256"
    using unsigned_less [of a, where ?'a = nat] unsigned_less [of b, where ?'a = nat] by simp_all
  then have pq: "p < 16" "q < 16"
    using a b by linarith+
  have "p = q" "r = t"
    using assms hex_digit_inject [OF pq] hex_digit_inject [OF rt]
    by (simp_all add: p_def [symmetric] q_def [symmetric] r_def [symmetric] t_def [symmetric])
  then have "unat a = unat b"
    using a b by simp
  then show ?thesis
    by (simp add: word_unat_eq_iff)
qed

lemma hex_string_inject: "hex_string xs = hex_string ys \<Longrightarrow> xs = ys"
proof (induction xs arbitrary: ys)
  case Nil
  then show ?case
    by (cases ys) (simp_all add: hex_string_def)
next
  case (Cons x xs)
  show ?case
  proof (cases ys)
    case Nil
    with Cons.prems show ?thesis
      by (simp add: hex_string_def)
  next
    case (Cons y ys')
    with Cons.prems have d: "hex_digit (unat x div 16) = hex_digit (unat y div 16)"
      "hex_digit (unat x mod 16) = hex_digit (unat y mod 16)"
      and rest: "hex_string xs = hex_string ys'"
      by (simp_all add: hex_string_def)
    from hex_byte_inject [OF d] Cons.IH [OF rest] Cons show ?thesis
      by simp
  qed
qed

text \<open>
  C1, as the code has it. For an 8-byte sender id, a name and a content that are strings
  of Unicode scalar values within the field widths (at most 255 and 65535 UTF-8 bytes; the
  uid at most 255) and that do not start with \<open>U+FEFF\<close>, decoding the message packet
  gives a record of type \<open>message\<close> with that name and content and the sender id in
  hexadecimal, and decoding the announce packet gives a record of type \<open>announce\<close> with
  that name and sender id; the hexadecimal string stands for no other sender id. (A
  leading \<open>U+FEFF\<close> is removed by the decoder.)
\<close>

theorem roundtrip_fields:
  assumes "length sid = 8"
    and "well_formed name" and "\<not> starts_with_bom name"
    and "length (TextEncoder_encode name) \<le> 255"
    and "well_formed body" and "\<not> starts_with_bom body"
    and "length (TextEncoder_encode body) \<le> 65535"
    and "length (TextEncoder_encode idt) \<le> 255"
  shows "(\<exists>r. decode_encoded (generateMessagePacket ts idt sid name body ttl_arg) = Inr (Some r)
            \<and> type r = ''message'' \<and> senderName r = name \<and> content r = Some body
            \<and> senderId r = hex_string sid \<and> (\<forall>sid'. senderId r = hex_string sid' \<longrightarrow> sid' = sid))
       \<and> (\<exists>r. decode_encoded (generateAnnouncePacket ts sid name ttl_arg) = Inr (Some r)
            \<and> type r = ''announce'' \<and> senderName r = name \<and> senderId r = hex_string sid
            \<and> (\<forall>sid'. senderId r = hex_string sid' \<longrightarrow> sid' = sid))"
proof -
  have n: "TextDecoder_decode (TextEncoder_encode name) = name"
    using assms by (simp add: TextDecoder_roundtrip)
  have b: "TextDecoder_decode (TextEncoder_encode body) = body"
    using assms by (simp add: TextDecoder_roundtrip)
  have "length (TextEncoder_encode name) < 65536"
    using assms(4) by simp
  then have m: "length (TextEncoder_encode name) mod 65536 = length (TextEncoder_encode name)"
    by (rule mod_less)
  have "\<exists>r. decode_encoded (generateMessagePacket ts idt sid name body ttl_arg) = Inr (Some r)
            \<and> type r = ''message'' \<and> senderName r = name \<and> content r = Some body
            \<and> senderId r = hex_string sid \<and> (\<forall>sid'. senderId r = hex_string sid' \<longrightarrow> sid' = sid)"
    unfolding message_packet [OF assms(1)] decode_encoded_Inr
      parseReceived_message [OF assms(1) assms(8) assms(4) assms(7)]
    by (auto simp add: n b dest: hex_string_inject)
  moreover have "\<exists>r. decode_encoded (generateAnnouncePacket ts sid name ttl_arg) = Inr (Some r)
            \<and> type r = ''announce'' \<and> senderName r = name \<and> senderId r = hex_string sid
            \<and> (\<forall>sid'. senderId r = hex_string sid' \<longrightarrow> sid' = sid)"
    unfolding announce_packet [OF assms(1)] decode_encoded_Inr parseReceived_announce [OF assms(1)] m
    by (auto simp add: n dest: hex_string_inject)
  ultimately show ?thesis by blast
qed

lemma example_wf_Alice: "well_formed [65, 108, 105, 99, 101] \<and> \<not> starts_with_bom [65, 108, 105, 99, 101]"
  by (simp add: well_formed_def is_scalar_def starts_with_bom_def)

lemma example_encode_hi: "TextEncoder_encode [104, 105] = [104, 105]"
  by (simp add: TextEncoder_encode_def utf8_encode_cp_def to_scalar_def)

lemma example_wf_hi: "well_formed [104, 105] \<and> \<not> starts_with_bom [104, 105]"
  by (simp add: well_formed_def is_scalar_def starts_with_bom_def)

lemma example_encode_uid: "TextEncoder_encode [117, 49] = [117, 49]"
  by (simp add: TextEncoder_encode_def utf8_encode_cp_def to_scalar_def)

theorem roundtrip_fields_witness:
  "length [1, 2, 3, 4, 5, 6, 7, 8 :: byte] = 8
   \<and> well_formed [65, 108, 105, 99, 101] \<and> \<not> starts_with_bom [65, 108, 105, 99, 101]
   \<and> length (TextEncoder_encode [65, 108, 105, 99, 101]) \<le> 255
   \<and> well_formed [104, 105] \<and> \<not> starts_with_bom [104, 105]
   \<and> length (TextEncoder_encode [104, 105]) \<le> 65535
   \<and> length (TextEncoder_encode [117, 49]) \<le> 255
   \<and> (\<exists>r. decode_encoded (generateMessagePacket 1000 [117, 49] [1, 2, 3, 4, 5, 6, 7, 8]
                              [65, 108, 105, 99, 101] [104, 105] (Some 5)) = Inr (Some r)
         \<and> type r = ''message'' \<and> senderName r = [65, 108, 105, 99, 101]
         \<and> content r = Some [104, 105] \<and> senderId r = hex_string [1, 2, 3, 4, 5, 6, 7, 8])
   \<and> (\<exists>r. decode_encoded (generateAnnouncePacket 1000 [1, 2, 3, 4, 5, 6, 7, 8]
                              [65, 108, 105, 99, 101] (Some 5)) = Inr (Some r)
         \<and> type r = ''announce'' \<and> senderName r = [65, 108, 105, 99, 101]
         \<and> senderId r = hex_string [1, 2, 3, 4, 5, 6, 7, 8])"
proof -
  have h: "length [1, 2, 3, 4, 5, 6, 7, 8 :: byte] = 8"
    "well_formed [65, 108, 105, 99, 101]" "\<not> starts_with_bom [65, 108, 105, 99, 101]"
    "length (TextEncoder_encode [65, 108, 105, 99, 101]) \<le> 255"
    "well_formed [104, 105]" "\<not> starts_with_bom [104, 105]"
    "length (TextEncoder_encode [104, 105]) \<le> 65535"
    "length (TextEncoder_encode [117, 49]) \<le> 255"
    using example_wf_Alice example_wf_hi
    by (simp_all add: example_encode_Alice example_encode_hi example_encode_uid)
  from roundtrip_fields [OF h, of 1000 "Some 5"] h show ?thesis
    by blast
qed

text \<open>The name \<open>U+FEFF\<close> followed by \<open>A\<close> is a string of scalar values, four UTF-8
  bytes long; the announce packet made from it decodes to the name \<open>A\<close>.\<close>

lemma example_encode_bom: "TextEncoder_encode [0xFEFF, 65] = [0xEF, 0xBB, 0xBF, 0x41]"
  by (simp add: TextEncoder_encode_def utf8_encode_cp_def to_scalar_def)

lemma example_decode_bom: "TextDecoder_decode [0xEF, 0xBB, 0xBF, 0x41] = [65]"
  by (simp add: TextDecoder_decode_def)

theorem roundtrip_name_counterexample:
  "well_formed [0xFEFF, 65] \<and> length (TextEncoder_encode [0xFEFF, 65]) \<le> 255
   \<and> decode_encoded (generateAnnouncePacket 1000 [1, 2, 3, 4, 5, 6, 7, 8] [0xFEFF, 65] (Some 3)) =
       Inr (Some \<lparr>type = ''announce'', senderName = [65], content = None,
                  senderId = ''0102030405060708'', timestamp = 1000, uid = None\<rparr>)"
proof -
  have l: "length [1, 2, 3, 4, 5, 6, 7, 8 :: byte] = 8"
    by simp
  have "decode_encoded (generateAnnouncePacket 1000 [1, 2, 3, 4, 5, 6, 7, 8] [0xFEFF, 65] (Some 3)) =
       Inr (Some \<lparr>type = ''announce'', senderName = [65], content = None,
                  senderId = ''0102030405060708'', timestamp = 1000, uid = None\<rparr>)"
    unfolding announce_packet [OF l] decode_encoded_Inr parseReceived_announce [OF l]
      example_encode_bom
    by (simp add: example_decode_bom example_hex)
  then show ?thesis
    by (simp add: well_formed_def is_scalar_def example_encode_bom)
qed

subsection \<open>Prefixes of a packet\<close>

lemma decode_prefix_Inr [simp]: "decode_prefix k (Inr p) = Inr (parse_try_catch (take k p))"
  by (simp add: decode_prefix_def parseReceivedPacket_view)

lemma announce_prefix:
  fixes nb :: bytes
  assumes sid: "length sid = 8" and n: "length nb \<le> 65535" and k: "k < 23 + length nb"
  shows "parse_try_catch (take k (announce_fields ts sid nb ttl @ [0])) =
         (if k < 14 then None
          else Some \<lparr>type = ''announce'', senderName = TextDecoder_decode (take (k - 22) nb),
                  content = None, senderId = hex_string (take (k - 14) sid),
                  timestamp = ts mod 2 ^ 64, uid = None\<rparr>)"
proof -
  have "length nb < 65536"
    using n by simp
  then have m: "length nb mod 65536 = length nb"
    by (rule mod_less)
  have "min (length nb) (k - 22) = k - 22"
    using k by simp
  then show ?thesis
    unfolding parseReceived_announce_take [OF sid] m by auto
qed

lemma message_prefix:
  fixes ub nb cb :: bytes
  assumes "length sid = 8" and "length ub \<le> 255" and "length nb \<le> 255" and "length cb \<le> 65535"
  shows "parse_try_catch (take k (envelope_fields ts sid (message_fields ts ub sid nb cb) ttl @ [0])) =
         (if k < 44 + length ub + length nb + length cb then None
          else parse_try_catch (envelope_fields ts sid (message_fields ts ub sid nb cb) ttl @ [0]))"
  unfolding parseReceived_message_take [OF assms] parseReceived_message [OF assms] by auto

text \<open>
  C2, as the code has it. The decoder has no \<open>TruncatedPacket\<close> result. On a proper
  prefix of an encoded packet (8-byte sender id, fields within their widths) it returns
  \<^verbatim>\<open>null\<close> when a \<^verbatim>\<open>DataView\<close> read falls outside the buffer, and a record otherwise:
  an announce prefix shorter than 14 bytes gives \<^verbatim>\<open>null\<close>, a longer one gives an
  announce record built from the bytes that are present (the sender id and the name cut
  where the buffer ends); a message prefix that ends before the record's last length byte
  (fewer than \<open>44 + uid + name + content\<close> bytes) gives \<^verbatim>\<open>null\<close>, a longer one gives
  the record of the whole packet.
\<close>

theorem prefix_decoding:
  assumes "length sid = 8"
    and "length (TextEncoder_encode name) \<le> 255"
    and "length (TextEncoder_encode body) \<le> 65535"
    and "length (TextEncoder_encode idt) \<le> 255"
  shows "(\<exists>p. generateAnnouncePacket ts sid name ttl_arg = Inr p
            \<and> length p = 23 + length (TextEncoder_encode name)
            \<and> (\<forall>k < length p. parseReceivedPacket (view_of (take k p)) =
                  (if k < 14 then Inr None
                   else Inr (Some \<lparr>type = ''announce'',
                           senderName = TextDecoder_decode (take (k - 22) (TextEncoder_encode name)),
                           content = None, senderId = hex_string (take (k - 14) sid),
                           timestamp = ts mod 2 ^ 64, uid = None\<rparr>))))
       \<and> (\<exists>p. generateMessagePacket ts idt sid name body ttl_arg = Inr p
            \<and> length p = 53 + length (TextEncoder_encode idt) + length (TextEncoder_encode name)
                           + length (TextEncoder_encode body)
            \<and> (\<exists>r. parseReceivedPacket (view_of p) = Inr (Some r))
            \<and> (\<forall>k < length p. parseReceivedPacket (view_of (take k p)) =
                  (if k < 44 + length (TextEncoder_encode idt) + length (TextEncoder_encode name)
                           + length (TextEncoder_encode body)
                   then Inr None else parseReceivedPacket (view_of p))))"
proof -
  define pa where "pa = announce_fields ts sid (TextEncoder_encode name)
                          (case ttl_arg of None \<Rightarrow> 3 | Some t \<Rightarrow> t) @ [0]"
  define pm where "pm = envelope_fields ts sid
                (message_fields ts (TextEncoder_encode idt) sid (TextEncoder_encode name)
                   (TextEncoder_encode body))
                (case ttl_arg of None \<Rightarrow> 3 | Some t \<Rightarrow> t) @ [0]"
  have la: "length pa = 23 + length (TextEncoder_encode name)"
    using assms(1) by (simp add: pa_def length_announce_fields)
  have lm: "length pm = 53 + length (TextEncoder_encode idt) + length (TextEncoder_encode name)
                           + length (TextEncoder_encode body)"
    using assms(1) by (simp add: pm_def length_envelope_fields length_message_fields)
  have n: "length (TextEncoder_encode name) \<le> 65535"
    using assms(2) by simp
  have a: "\<forall>k < length pa. parse_try_catch (take k pa) =
                  (if k < 14 then None
                   else Some \<lparr>type = ''announce'',
                           senderName = TextDecoder_decode (take (k - 22) (TextEncoder_encode name)),
                           content = None, senderId = hex_string (take (k - 14) sid),
                           timestamp = ts mod 2 ^ 64, uid = None\<rparr>)"
  proof (intro allI impI)
    fix k
    assume "k < length pa"
    then have "k < 23 + length (TextEncoder_encode name)"
      using la by simp
    from announce_prefix [OF assms(1) n this]
    show "parse_try_catch (take k pa) =
                  (if k < 14 then None
                   else Some \<lparr>type = ''announce'',
                           senderName = TextDecoder_decode (take (k - 22) (TextEncoder_encode name)),
                           content = None, senderId = hex_string (take (k - 14) sid),
                           timestamp = ts mod 2 ^ 64, uid = None\<rparr>)"
      unfolding pa_def .
  qed
  have m: "\<forall>k < length pm. parse_try_catch (take k pm) =
                  (if k < 44 + length (TextEncoder_encode idt) + length (TextEncoder_encode name)
                           + length (TextEncoder_encode body)
                   then None else parse_try_catch pm)"
    unfolding pm_def using message_prefix [OF assms(1) assms(4) assms(2) assms(3)] by blast
  have a': "\<forall>k < length pa. parseReceivedPacket (view_of (take k pa)) =
                  (if k < 14 then Inr None
                   else Inr (Some \<lparr>type = ''announce'',
                           senderName = TextDecoder_decode (take (k - 22) (TextEncoder_encode name)),
                           content = None, senderId = hex_string (take (k - 14) sid),
                           timestamp = ts mod 2 ^ 64, uid = None\<rparr>))"
    using a by (simp add: parseReceivedPacket_view)
  have m': "\<forall>k < length pm. parseReceivedPacket (view_of (take k pm)) =
                  (if k < 44 + length (TextEncoder_encode idt) + length (TextEncoder_encode name)
                           + length (TextEncoder_encode body)
                   then Inr None else parseReceivedPacket (view_of pm))"
    using m by (simp add: parseReceivedPacket_view)
  have "parse_try_catch pm \<noteq> None"
    unfolding pm_def parseReceived_message [OF assms(1) assms(4) assms(2) assms(3)] by simp
  then have "\<exists>r. parseReceivedPacket (view_of pm) = Inr (Some r)"
    by (simp add: parseReceivedPacket_view)
  moreover have "generateAnnouncePacket ts sid name ttl_arg = Inr pa"
    unfolding pa_def by (rule announce_packet [OF assms(1)])
  moreover have "generateMessagePacket ts idt sid name body ttl_arg = Inr pm"
    unfolding pm_def by (rule message_packet [OF assms(1)])
  ultimately show ?thesis
    using la lm a' m' by blast
qed


lemma example_decode_Ali: "TextDecoder_decode [65, 108, 105] = [65, 108, 105]"
  by (simp add: TextDecoder_decode_def)

lemma example_announce_prefix:
  "parse_try_catch (take 25 (announce_fields 1000 [1, 2, 3, 4, 5, 6, 7, 8] [65, 108, 105, 99, 101] 3 @ [0])) =
   Some \<lparr>type = ''announce'', senderName = [65, 108, 105], content = None,
         senderId = ''0102030405060708'', timestamp = 1000, uid = None\<rparr>"
proof -
  have l: "length [1, 2, 3, 4, 5, 6, 7, 8 :: byte] = 8"
    and n: "length [65, 108, 105, 99, 101 :: byte] \<le> 65535"
    and k: "25 < 23 + length [65, 108, 105, 99, 101 :: byte]"
    by simp_all
  show ?thesis
    unfolding announce_prefix [OF l n k]
    by (simp add: example_decode_Ali example_hex)
qed

theorem prefix_decoding_witness:
  "length [1, 2, 3, 4, 5, 6, 7, 8 :: byte] = 8
   \<and> length (TextEncoder_encode [65, 108, 105, 99, 101]) \<le> 255
   \<and> length (TextEncoder_encode [104, 105]) \<le> 65535
   \<and> length (TextEncoder_encode [117, 49]) \<le> 255
   \<and> (\<exists>p. generateAnnouncePacket 1000 [1, 2, 3, 4, 5, 6, 7, 8] [65, 108, 105, 99, 101] (Some 3) = Inr p
         \<and> length p = 28
         \<and> parseReceivedPacket (view_of (take 25 p)) =
             Inr (Some \<lparr>type = ''announce'', senderName = [65, 108, 105], content = None,
                        senderId = ''0102030405060708'', timestamp = 1000, uid = None\<rparr>)
         \<and> parseReceivedPacket (view_of (take 13 p)) = Inr None)
   \<and> (\<exists>p. generateMessagePacket 1000 [117, 49] [1, 2, 3, 4, 5, 6, 7, 8] [65, 108, 105, 99, 101]
               [104, 105] (Some 3) = Inr p
         \<and> length p = 62
         \<and> parseReceivedPacket (view_of (take 52 p)) = Inr None
         \<and> parseReceivedPacket (view_of (take 53 p)) = parseReceivedPacket (view_of p))"
proof -
  have h: "length [1, 2, 3, 4, 5, 6, 7, 8 :: byte] = 8"
    "length (TextEncoder_encode [65, 108, 105, 99, 101]) \<le> 255"
    "length (TextEncoder_encode [104, 105]) \<le> 65535"
    "length (TextEncoder_encode [117, 49]) \<le> 255"
    by (simp_all add: example_encode_Alice example_encode_hi example_encode_uid)
  from prefix_decoding [OF h, of 1000 "Some 3"]
  obtain pa pm where
    pa: "generateAnnouncePacket 1000 [1, 2, 3, 4, 5, 6, 7, 8] [65, 108, 105, 99, 101] (Some 3) = Inr pa"
      "length pa = 23 + length (TextEncoder_encode [65, 108, 105, 99, 101])"
      "\<forall>k < length pa. parseReceivedPacket (view_of (take k pa)) =
                  (if k < 14 then Inr None
                   else Inr (Some \<lparr>type = ''announce'',
                           senderName = TextDecoder_decode (take (k - 22) (TextEncoder_encode [65, 108, 105, 99, 101])),
                           content = None, senderId = hex_string (take (k - 14) [1, 2, 3, 4, 5, 6, 7, 8]),
                           timestamp = 1000 mod 2 ^ 64, uid = None\<rparr>))"
    and pm: "generateMessagePacket 1000 [117, 49] [1, 2, 3, 4, 5, 6, 7, 8] [65, 108, 105, 99, 101]
               [104, 105] (Some 3) = Inr pm"
      "length pm = 53 + length (TextEncoder_encode [117, 49]) + length (TextEncoder_encode [65, 108, 105, 99, 101])
                           + length (TextEncoder_encode [104, 105])"
      "\<forall>k < length pm. parseReceivedPacket (view_of (take k pm)) =
                  (if k < 44 + length (TextEncoder_encode [117, 49]) + length (TextEncoder_encode [65, 108, 105, 99, 101])
                           + length (TextEncoder_encode [104, 105])
                   then Inr None else parseReceivedPacket (view_of pm))"
    by blast
  have la: "length pa = 28" and lm: "length pm = 62"
    using pa(2) pm(2) by (simp_all add: example_encode_Alice example_encode_hi example_encode_uid)
  have "25 < length pa" "13 < length pa" "52 < length pm" "53 < length pm"
    using la lm by simp_all
  then have "parseReceivedPacket (view_of (take 25 pa)) =
             Inr (Some \<lparr>type = ''announce'', senderName = [65, 108, 105], content = None,
                        senderId = ''0102030405060708'', timestamp = 1000, uid = None\<rparr>)"
    and "parseReceivedPacket (view_of (take 13 pa)) = Inr None"
    and "parseReceivedPacket (view_of (take 52 pm)) = Inr None"
    and "parseReceivedPacket (view_of (take 53 pm)) = parseReceivedPacket (view_of pm)"
    using pa(3) pm(3)
    by (simp_all add: example_encode_Alice example_encode_hi example_encode_uid example_decode_Ali example_hex)
  with h pa(1) pm(1) la lm show ?thesis
    by blast
qed

theorem truncated_packet_counterexample:
  "ebind (generateAnnouncePacket 1000 [1, 2, 3, 4, 5, 6, 7, 8] [65, 108, 105, 99, 101] (Some 3))
     (\<lambda>p. Inr (length p)) = Inr 28
   \<and> decode_prefix 25 (generateAnnouncePacket 1000 [1, 2, 3, 4, 5, 6, 7, 8] [65, 108, 105, 99, 101] (Some 3)) =
       Inr (Some \<lparr>type = ''announce'', senderName = [65, 108, 105], content = None,
                  senderId = ''0102030405060708'', timestamp = 1000, uid = None\<rparr>)"
proof -
  have l: "length [1, 2, 3, 4, 5, 6, 7, 8 :: byte] = 8"
    by simp
  show ?thesis
    unfolding announce_packet [OF l] example_encode_Alice decode_prefix_Inr option.case
      example_announce_prefix
    by (simp add: length_announce_fields)
qed

subsection \<open>The unwritten last byte of an announce packet\<close>

text \<open>
  C9. For an 8-byte sender id and any name, the announce encoder returns the fields it
  writes (the 14-byte header, the sender id and the name: \<open>22 + n\<close> bytes for a name of
  \<open>n\<close> UTF-8 bytes) followed by one zero byte that it allocated and never wrote, so the
  buffer has \<open>23 + n\<close> bytes; and the decoder returns the same result on the buffer with
  and without that last byte.
\<close>

theorem announce_trailing_byte:
  assumes "length sid = 8"
  shows "\<exists>written.
           written = announce_fields ts sid (TextEncoder_encode name)
                       (case ttl_arg of None \<Rightarrow> 3 | Some t \<Rightarrow> t)
         \<and> generateAnnouncePacket ts sid name ttl_arg = Inr (written @ [0])
         \<and> length written = 22 + length (TextEncoder_encode name)
         \<and> length (written @ [0]) = 23 + length (TextEncoder_encode name)
         \<and> parseReceivedPacket (view_of (written @ [0])) = parseReceivedPacket (view_of written)
         \<and> (\<exists>r. parseReceivedPacket (view_of written) = Inr (Some r))"
proof -
  define written where "written = announce_fields ts sid (TextEncoder_encode name)
                       (case ttl_arg of None \<Rightarrow> 3 | Some t \<Rightarrow> t)"
  have "generateAnnouncePacket ts sid name ttl_arg = Inr (written @ [0])"
    unfolding written_def by (rule announce_packet [OF assms])
  moreover have "length written = 22 + length (TextEncoder_encode name)"
    using assms by (simp add: written_def length_announce_fields)
  moreover have "parseReceivedPacket (view_of (written @ [0])) = parseReceivedPacket (view_of written)"
    and "\<exists>r. parseReceivedPacket (view_of written) = Inr (Some r)"
    unfolding written_def parseReceivedPacket_view
    using parseReceived_announce [OF assms, of ts "TextEncoder_encode name" _ "[0]"]
          parseReceived_announce [OF assms, of ts "TextEncoder_encode name" _ "[]"]
    by simp_all
  ultimately show ?thesis
    by (simp add: written_def)
qed


theorem announce_trailing_byte_witness:
  "length [1, 2, 3, 4, 5, 6, 7, 8 :: byte] = 8
   \<and> (\<exists>written.
         generateAnnouncePacket 1000 [1, 2, 3, 4, 5, 6, 7, 8] [65, 108, 105, 99, 101] (Some 3)
           = Inr (written @ [0])
       \<and> length written = 27
       \<and> parseReceivedPacket (view_of (written @ [0])) = parseReceivedPacket (view_of written)
       \<and> (\<exists>r. parseReceivedPacket (view_of written) = Inr (Some r)))"
proof -
  have l: "length [1, 2, 3, 4, 5, 6, 7, 8 :: byte] = 8"
    by simp
  from announce_trailing_byte [OF l, of 1000 "[65, 108, 105, 99, 101]" "Some 3"]
  show ?thesis
    using l by (simp add: example_encode_Alice)
qed

subsection \<open>Over-long fields\<close>

lemma announce_length_field:
  assumes "length sid = 8"
  shows "getUint16 (announce_fields ts sid nb ttl @ pad) 12 = Inr (length nb mod 65536)"
proof -
  have "announce_fields ts sid nb ttl @ pad =
        ([0x01, 0x01, of_int ttl] @ be_bytes 8 ts @ [0x00]) @ be_bytes 2 (length nb) @ (sid @ nb @ pad)"
    by (simp add: announce_fields_def)
  then show ?thesis
    unfolding getUint16_def
    using read_at_app [of "[0x01, 0x01, of_int ttl] @ be_bytes 8 ts @ [0x00]" 12
            "be_bytes 2 (length nb)" 2 "sid @ nb @ pad"]
    by (simp add: be_val_be_bytes)
qed

lemma message_length_fields:
  fixes ub nb cb pad P :: bytes and ts :: nat and ttl :: int
  assumes sid: "length sid = 8"
  defines "P \<equiv> envelope_fields ts sid (message_fields ts ub sid nb cb) ttl @ pad"
  shows "getUint8 P 39 = Inr (length ub mod 256)"
    and "getUint8 P (40 + length ub) = Inr (length nb mod 256)"
    and "getUint16 P (41 + length ub + length nb) = Inr (length cb mod 65536)"
proof -
  define h where "h = [0x01, 0x04, of_int ttl] @ be_bytes 8 ts @ [0x01]
                    @ be_bytes 2 (length (message_fields ts ub sid nb cb)) @ sid @ replicate 8 0xff
                    @ [0x10] @ be_bytes 8 ts"
  have h: "length h = 39"
    using sid by (simp add: h_def)
  have P: "P = h @ [of_nat (length ub)] @ ub @ [of_nat (length nb)] @ nb @ be_bytes 2 (length cb)
               @ (cb @ [of_nat (length sid)] @ sid @ pad)"
    by (simp add: P_def h_def envelope_fields_def message_fields_def)
  show "getUint8 P 39 = Inr (length ub mod 256)"
    unfolding getUint8_def
    using read_at_app [of h 39 "[of_nat (length ub)]" 1] h
    by (simp add: P unat_of_nat)
  show "getUint8 P (40 + length ub) = Inr (length nb mod 256)"
    unfolding getUint8_def
    using read_at_app [of "h @ [of_nat (length ub)] @ ub" "40 + length ub" "[of_nat (length nb)]" 1] h
    by (simp add: P unat_of_nat)
  show "getUint16 P (41 + length ub + length nb) = Inr (length cb mod 65536)"
    unfolding getUint16_def
    using read_at_app [of "h @ [of_nat (length ub)] @ ub @ [of_nat (length nb)] @ nb"
            "41 + length ub + length nb" "be_bytes 2 (length cb)" 2] h
    by (simp add: P be_val_be_bytes)
qed

lemma encode_ascii:
  "list_all (\<lambda>c. c < 0x80) s \<Longrightarrow> TextEncoder_encode s = map of_nat s"
  by (induction s) (simp_all add: TextEncoder_encode_def utf8_encode_cp_def to_scalar_def)

text \<open>
  C4, as the code has it. The encoders make no length check and have no
  \<open>LengthOverflow\<close> result: for an 8-byte sender id and any name, content and uid, however
  long, each returns a packet. A length that does not fit its prefix is stored reduced
  modulo the prefix's range: the announce packet's 16-bit name length modulo 65536, and in
  the message record the uid and name lengths modulo 256 and the content length modulo
  65536.
\<close>

theorem encoders_accept_any_length:
  assumes "length sid = 8"
  shows "(\<exists>p. generateAnnouncePacket ts sid name ttl_arg = Inr p
            \<and> length p = 23 + length (TextEncoder_encode name)
            \<and> getUint16 p 12 = Inr (length (TextEncoder_encode name) mod 65536))
       \<and> (\<exists>p. generateMessagePacket ts idt sid name body ttl_arg = Inr p
            \<and> length p = 53 + length (TextEncoder_encode idt) + length (TextEncoder_encode name)
                           + length (TextEncoder_encode body)
            \<and> getUint8 p 39 = Inr (length (TextEncoder_encode idt) mod 256)
            \<and> getUint8 p (40 + length (TextEncoder_encode idt))
                = Inr (length (TextEncoder_encode name) mod 256)
            \<and> getUint16 p (41 + length (TextEncoder_encode idt) + length (TextEncoder_encode name))
                = Inr (length (TextEncoder_encode body) mod 65536))"
proof -
  have "\<exists>p. generateAnnouncePacket ts sid name ttl_arg = Inr p
            \<and> length p = 23 + length (TextEncoder_encode name)
            \<and> getUint16 p 12 = Inr (length (TextEncoder_encode name) mod 65536)"
    unfolding announce_packet [OF assms]
    using assms by (simp add: announce_length_field length_announce_fields)
  moreover have "\<exists>p. generateMessagePacket ts idt sid name body ttl_arg = Inr p
            \<and> length p = 53 + length (TextEncoder_encode idt) + length (TextEncoder_encode name)
                           + length (TextEncoder_encode body)
            \<and> getUint8 p 39 = Inr (length (TextEncoder_encode idt) mod 256)
            \<and> getUint8 p (40 + length (TextEncoder_encode idt))
                = Inr (length (TextEncoder_encode name) mod 256)
            \<and> getUint16 p (41 + length (TextEncoder_encode idt) + length (TextEncoder_encode name))
                = Inr (length (TextEncoder_encode body) mod 65536)"
    unfolding message_packet [OF assms]
    using assms message_length_fields [OF assms]
    by (simp add: length_envelope_fields length_message_fields)
  ultimately show ?thesis by blast
qed


lemma example_long_name: "length (TextEncoder_encode (replicate 256 97)) = 256"
  by (simp add: encode_ascii list_all_iff)

theorem encoders_accept_any_length_witness:
  "length [1, 2, 3, 4, 5, 6, 7, 8 :: byte] = 8
   \<and> (\<exists>p. generateAnnouncePacket 1000 [1, 2, 3, 4, 5, 6, 7, 8] (replicate 256 97) (Some 3) = Inr p
         \<and> length p = 279 \<and> getUint16 p 12 = Inr 256)
   \<and> (\<exists>p. generateMessagePacket 1000 [117, 49] [1, 2, 3, 4, 5, 6, 7, 8] (replicate 256 97)
               [104, 105] (Some 3) = Inr p
         \<and> length p = 313 \<and> getUint8 p 39 = Inr 2 \<and> getUint8 p 42 = Inr 0
         \<and> getUint16 p 299 = Inr 2)"
proof -
  have l: "length [1, 2, 3, 4, 5, 6, 7, 8 :: byte] = 8"
    by simp
  from encoders_accept_any_length [OF l, of 1000 "replicate 256 97" "Some 3" "[117, 49]" "[104, 105]"]
  show ?thesis
    using l by (simp add: example_long_name example_encode_hi example_encode_uid numeral_2_eq_2 [symmetric])
qed

theorem length_overflow_counterexample:
  "255 < length (TextEncoder_encode (replicate 256 97))
   \<and> generateAnnouncePacket 1000 [1, 2, 3, 4, 5, 6, 7, 8] (replicate 256 97) (Some 3) =
       Inr (announce_fields 1000 [1, 2, 3, 4, 5, 6, 7, 8] (TextEncoder_encode (replicate 256 97)) 3 @ [0])
   \<and> generateMessagePacket 1000 [117, 49] [1, 2, 3, 4, 5, 6, 7, 8] (replicate 256 97) [104, 105] (Some 5) =
       Inr (envelope_fields 1000 [1, 2, 3, 4, 5, 6, 7, 8]
              (message_fields 1000 (TextEncoder_encode [117, 49]) [1, 2, 3, 4, 5, 6, 7, 8]
                 (TextEncoder_encode (replicate 256 97)) (TextEncoder_encode [104, 105])) 5 @ [0])"
proof -
  have l: "length [1, 2, 3, 4, 5, 6, 7, 8 :: byte] = 8"
    by simp
  show ?thesis
    unfolding announce_packet [OF l] message_packet [OF l] example_long_name by simp
qed

section \<open>What a send call writes\<close>

lemma wrote_refl: "wrote s s []"
  by (simp add: wrote_def)

lemma wrote_trans: "wrote s s' ws \<Longrightarrow> wrote s' s'' ws' \<Longrightarrow> wrote s s'' (ws @ ws')"
  by (simp add: wrote_def)


lemma wrote_log_add_first: "wrote (log_add m s) s' ws \<Longrightarrow> wrote s s' ws"
  by (simp add: wrote_def log_add_def Let_def)

lemma hd_log_add: "hd (log_entries (log_add m s)) = m"
  by (cases "log_entries s") (simp_all add: log_add_def Let_def)

lemma sender_of_announce:
  assumes "length sid = 8"
  shows "sender_of (announce_fields ts sid nb ttl @ pad) = sid"
proof -
  have "announce_fields ts sid nb ttl @ pad =
        ([0x01, 0x01, of_int ttl] @ be_bytes 8 ts @ [0x00] @ be_bytes 2 (length nb)) @ sid @ (nb @ pad)"
    by (simp add: announce_fields_def)
  then show ?thesis
    unfolding sender_of_def
    using slice_app [of "[0x01, 0x01, of_int ttl] @ be_bytes 8 ts @ [0x00] @ be_bytes 2 (length nb)"
            14 sid 8 "nb @ pad"] assms
    by simp
qed

lemma sender_of_envelope:
  assumes "length sid = 8"
  shows "sender_of (envelope_fields ts sid msg ttl @ pad) = sid"
proof -
  have "envelope_fields ts sid msg ttl @ pad =
        ([0x01, 0x04, of_int ttl] @ be_bytes 8 ts @ [0x01] @ be_bytes 2 (length msg)) @ sid
        @ (replicate 8 0xff @ msg @ pad)"
    by (simp add: envelope_fields_def)
  then show ?thesis
    unfolding sender_of_def
    using slice_app [of "[0x01, 0x04, of_int ttl] @ be_bytes 8 ts @ [0x01] @ be_bytes 2 (length msg)"
            14 sid 8 "replicate 8 0xff @ msg @ pad"] assms
    by simp
qed

lemma take3_announce: "take 3 (announce_fields ts sid nb ttl @ pad) = [0x01, 0x01, of_int ttl]"
  by (simp add: announce_fields_def)

lemma take3_envelope: "take 3 (envelope_fields ts sid msg ttl @ pad) = [0x01, 0x04, of_int ttl]"
  by (simp add: envelope_fields_def)

lemma write_cases:
  obtains (accepted) "accepts d (length (filter (\<lambda>w. fst w = dev_id d) (wire s)))"
      "writeValueWithoutResponse d packet s = (None, s\<lparr>wire := wire s @ [(dev_id d, packet)]\<rparr>)"
    | (rejected) "\<not> accepts d (length (filter (\<lambda>w. fst w = dev_id d) (wire s)))"
      "writeValueWithoutResponse d packet s = (Some NetworkError, s)"
  by (cases "accepts d (length (filter (\<lambda>w. fst w = dev_id d) (wire s)))")
     (simp_all add: writeValueWithoutResponse_def)

lemma message_loop_wrote:
  assumes sid: "length sid = 8"
  shows "\<exists>r s' ws. message_loop e d entry sid name msg k i s = (r, s') \<and> wrote s s' ws
           \<and> (\<forall>w \<in> set ws. fst w = dev_id d \<and> sender_of (snd w) = sid \<and> take 3 (snd w) = [0x01, 0x04, 0x05])
           \<and> (r = None \<longrightarrow> length ws = k) \<and> ((\<forall>j. accepts d j) \<longrightarrow> r = None)"
proof (induction k arbitrary: i s)
  case 0
  show ?case
    by (simp add: wrote_refl)
next
  case (Suc k)
  define s1 where "s1 = log_add (entry (i + 1)) s"
  define P where "P = envelope_fields (now e (clock_reads s1)) sid
                (message_fields (now e (clock_reads s1)) (TextEncoder_encode (randomUUID e (uuids_drawn s1)))
                   sid (TextEncoder_encode name) (TextEncoder_encode msg)) 5 @ [0]"
  define s2 where "s2 = s1\<lparr>clock_reads := clock_reads s1 + 1, uuids_drawn := uuids_drawn s1 + 1\<rparr>"
  have gen: "messagePacket_now e sid name msg (Some 5) s1 = (Inr P, s2)"
    by (simp add: messagePacket_now_def message_packet [OF sid] P_def s2_def)
  have w12: "wrote s s2 []"
    by (simp add: wrote_def s2_def s1_def log_add_def Let_def)
  have P: "sender_of P = sid" "take 3 P = [0x01, 0x04, 0x05]"
    unfolding P_def using sender_of_envelope [OF sid] take3_envelope by simp_all
  show ?case
  proof (cases rule: write_cases [of d s2 P])
    case rejected
    then have 1: "message_loop e d entry sid name msg (Suc k) i s = (Some NetworkError, s2)"
      using gen by (simp add: s1_def [symmetric])
    have 3: "\<forall>w \<in> set []. fst w = dev_id d \<and> sender_of (snd w) = sid \<and> take 3 (snd w) = [0x01, 0x04, 0x05]"
      by simp
    have 4: "Some NetworkError = None \<longrightarrow> length ([] :: (string \<times> bytes) list) = Suc k"
      by simp
    have 5: "(\<forall>j. accepts d j) \<longrightarrow> Some NetworkError = None"
      using rejected(1) by blast
    show ?thesis
      using 1 w12 3 4 5 by blast
  next
    case accepted
    define s3 where "s3 = s2\<lparr>wire := wire s2 @ [(dev_id d, P)]\<rparr>"
    from Suc.IH [of "i + 1" s3] obtain r s' ws where
      loop: "message_loop e d entry sid name msg k (i + 1) s3 = (r, s')" and w: "wrote s3 s' ws"
      and ws: "\<forall>w \<in> set ws. fst w = dev_id d \<and> sender_of (snd w) = sid \<and> take 3 (snd w) = [0x01, 0x04, 0x05]"
      and r: "r = None \<longrightarrow> length ws = k" "(\<forall>j. accepts d j) \<longrightarrow> r = None"
      by blast
    have w23: "wrote s2 s3 [(dev_id d, P)]"
      by (simp add: wrote_def s3_def)
    have 1: "message_loop e d entry sid name msg (Suc k) i s = (r, s')"
      using gen accepted(2) loop by (simp add: s1_def [symmetric] s3_def [symmetric])
    have 2: "wrote s s' ((dev_id d, P) # ws)"
      using wrote_trans [OF wrote_trans [OF w12 w23] w] by simp
    have 3: "\<forall>w \<in> set ((dev_id d, P) # ws).
               fst w = dev_id d \<and> sender_of (snd w) = sid \<and> take 3 (snd w) = [0x01, 0x04, 0x05]"
      using ws P by simp
    have 4: "r = None \<longrightarrow> length ((dev_id d, P) # ws) = Suc k"
      using r(1) by simp
    show ?thesis
      using 1 2 3 4 r(2) by blast
  qed
qed


lemma announce_then_messages_wrote:
  assumes sid: "length sid = 8"
  shows "\<exists>r s' ws. announce_then_messages e d entry sid name msg num s = (r, s') \<and> wrote s s' ws
           \<and> (\<forall>w \<in> set ws. fst w = dev_id d \<and> sender_of (snd w) = sid
                  \<and> (take 3 (snd w) = [0x01, 0x01, 0x03] \<or> take 3 (snd w) = [0x01, 0x04, 0x05]))
           \<and> (r = None \<longrightarrow> length ws = 1 + nat num) \<and> ((\<forall>j. accepts d j) \<longrightarrow> r = None)"
proof -
  define s1 where "s1 = log_add LogSendingAnnounce s"
  define A where "A = announce_fields (now e (clock_reads s1)) sid (TextEncoder_encode name) 3 @ [0]"
  define s2 where "s2 = s1\<lparr>clock_reads := clock_reads s1 + 1\<rparr>"
  have gen: "announcePacket_now e sid name None s1 = (Inr A, s2)"
    by (simp add: announcePacket_now_def announce_packet [OF sid] A_def s2_def)
  have w12: "wrote s s2 []"
    by (simp add: wrote_def s2_def s1_def log_add_def Let_def)
  have A: "sender_of A = sid" "take 3 A = [0x01, 0x01, 0x03]"
    unfolding A_def using sender_of_announce [OF sid] take3_announce by simp_all
  show ?thesis
  proof (cases rule: write_cases [of d s2 A])
    case rejected
    then have 1: "announce_then_messages e d entry sid name msg num s = (Some NetworkError, s2)"
      using gen by (simp add: announce_then_messages_def s1_def [symmetric])
    have 3: "\<forall>w \<in> set []. fst w = dev_id d \<and> sender_of (snd w) = sid
                  \<and> (take 3 (snd w) = [0x01, 0x01, 0x03] \<or> take 3 (snd w) = [0x01, 0x04, 0x05])"
      by simp
    have 4: "Some NetworkError = None \<longrightarrow> length ([] :: (string \<times> bytes) list) = 1 + nat num"
      by simp
    have 5: "(\<forall>j. accepts d j) \<longrightarrow> Some NetworkError = None"
      using rejected(1) by blast
    show ?thesis
      using 1 w12 3 4 5 by blast
  next
    case accepted
    define s3 where "s3 = s2\<lparr>wire := wire s2 @ [(dev_id d, A)]\<rparr>"
    from message_loop_wrote [OF sid, of e d entry name msg "nat num" 0 s3] obtain r s' ws where
      loop: "message_loop e d entry sid name msg (nat num) 0 s3 = (r, s')" and w: "wrote s3 s' ws"
      and ws: "\<forall>w \<in> set ws. fst w = dev_id d \<and> sender_of (snd w) = sid \<and> take 3 (snd w) = [0x01, 0x04, 0x05]"
      and r: "r = None \<longrightarrow> length ws = nat num" "(\<forall>j. accepts d j) \<longrightarrow> r = None"
      by blast
    have w23: "wrote s2 s3 [(dev_id d, A)]"
      by (simp add: wrote_def s3_def)
    have 1: "announce_then_messages e d entry sid name msg num s = (r, s')"
      using gen accepted(2) loop
      by (simp add: announce_then_messages_def s1_def [symmetric] s3_def [symmetric])
    have 2: "wrote s s' ((dev_id d, A) # ws)"
      using wrote_trans [OF wrote_trans [OF w12 w23] w] by simp
    have 3: "\<forall>w \<in> set ((dev_id d, A) # ws). fst w = dev_id d \<and> sender_of (snd w) = sid
                  \<and> (take 3 (snd w) = [0x01, 0x01, 0x03] \<or> take 3 (snd w) = [0x01, 0x04, 0x05])"
      using ws A by simp
    have 4: "r = None \<longrightarrow> length ((dev_id d, A) # ws) = 1 + nat num"
      using r(1) by simp
    show ?thesis
      using 1 2 3 4 r(2) by blast
  qed
qed

lemma length_generateSenderId: "length (fst (generateSenderId e s)) = 8"
  by (simp add: generateSenderId_def)


lemma map_const_replicate: "\<forall>x \<in> set xs. f x = c \<Longrightarrow> map f xs = replicate (length xs) c"
  by (induction xs) simp_all

lemma broadcast_device_wrote:
  assumes sid: "length sid = 8"
  shows "\<exists>r s' ws. broadcast_device e sid name msg num d s = (r, s') \<and> wire s' = wire s @ ws
           \<and> (\<forall>w \<in> set ws. fst w = dev_id d \<and> sender_of (snd w) = sid
                  \<and> (take 3 (snd w) = [0x01, 0x01, 0x03] \<or> take 3 (snd w) = [0x01, 0x04, 0x05]))
           \<and> status s' = status s \<and> random_drawn s' = random_drawn s
           \<and> (r = None \<longrightarrow> length ws = 1 + nat num \<and> discoveredDevices s' = discoveredDevices s @ [d])
           \<and> (r \<noteq> None \<longrightarrow> discoveredDevices s' = discoveredDevices s)
           \<and> (connects d \<and> (\<forall>j. accepts d j) \<longrightarrow> r = None)
           \<and> (\<not> connects d \<longrightarrow> r = Some NetworkError \<and> s' = s)"
proof (cases "connects d")
  case False
  then have "broadcast_device e sid name msg num d s = (Some NetworkError, s)"
    by (simp add: broadcast_device_def)
  with False show ?thesis
    by simp
next
  case True
  from announce_then_messages_wrote [OF sid, of e d "\<lambda>i. LogSendingMessageTo (dev_id d) i num" name msg num s]
  obtain r s1 ws where
    run: "announce_then_messages e d (\<lambda>i. LogSendingMessageTo (dev_id d) i num) sid name msg num s = (r, s1)"
    and w: "wrote s s1 ws"
    and ws: "\<forall>w \<in> set ws. fst w = dev_id d \<and> sender_of (snd w) = sid
                  \<and> (take 3 (snd w) = [0x01, 0x01, 0x03] \<or> take 3 (snd w) = [0x01, 0x04, 0x05])"
    and r: "r = None \<longrightarrow> length ws = 1 + nat num" "(\<forall>j. accepts d j) \<longrightarrow> r = None"
    by blast
  show ?thesis
  proof (cases r)
    case None
    define s' where "s' = log_add (LogSentTo (dev_id d) num) (s1\<lparr>discoveredDevices := discoveredDevices s1 @ [d]\<rparr>)"
    have 1: "broadcast_device e sid name msg num d s = (None, s')"
      using True run None by (simp add: broadcast_device_def s'_def)
    have 2: "wire s' = wire s @ ws" "status s' = status s" "random_drawn s' = random_drawn s"
      "discoveredDevices s' = discoveredDevices s @ [d]"
      using w by (simp_all add: s'_def wrote_def log_add_def Let_def)
    have 3: "length ws = 1 + nat num"
      using r None by simp
    show ?thesis
      using 1 2 3 ws True by (intro exI [of _ None] exI [of _ s'] exI [of _ ws]) simp
  next
    case (Some err)
    have 1: "broadcast_device e sid name msg num d s = (Some err, s1)"
      using True run Some by (simp add: broadcast_device_def)
    have 2: "wire s1 = wire s @ ws" "status s1 = status s" "random_drawn s1 = random_drawn s"
      "discoveredDevices s1 = discoveredDevices s"
      using w by (simp_all add: wrote_def)
    have 3: "\<not> (\<forall>j. accepts d j)"
      using r Some by auto
    show ?thesis
      using 1 2 3 ws True by (intro exI [of _ "Some err"] exI [of _ s1] exI [of _ ws]) simp
  qed
qed

lemma broadcast_loop_failed:
  assumes "find (\<lambda>d'. dev_id d' = dev_id d) (discoveredDevices s) = None"
    and "broadcast_device e sid name msg num d (log_add (LogConnecting (dev_id d)) s) = (Some err, s1)"
  shows "broadcast_loop e sid name msg num (Picked d # picks) found sent s =
         broadcast_loop e sid name msg num picks found sent (log_add (LogFailedToSendTo (dev_id d) err) s1)"
  using assms by simp

lemma broadcast_loop_sent:
  assumes "find (\<lambda>d'. dev_id d' = dev_id d) (discoveredDevices s) = None"
    and "broadcast_device e sid name msg num d (log_add (LogConnecting (dev_id d)) s) = (None, s1)"
  shows "broadcast_loop e sid name msg num (Picked d # picks) found sent s =
         broadcast_loop e sid name msg num picks (found + 1) (sent + num) s1"
  using assms by simp




lemma example_session_fields:
  "currentCharacteristic example_session = Some (example_device ''d0'' True)"
  "wire example_session = []" "random_drawn example_session = 0"
  "discoveredDevices example_session = []"
  by (simp_all add: example_session_def)

lemma example_device_fields:
  "dev_id (example_device i c) = i" "connects (example_device i c) = c"
  "accepts (example_device i c) j"
  by (simp_all add: example_device_def)

lemma example_env_fields:
  "bluetooth example_env" "getRandomValues example_env = of_nat"
  by (simp_all add: example_env_def)




lemma third_byte: "take 3 p = [a, b, c] \<Longrightarrow> p ! 2 = c"
proof -
  assume t: "take 3 p = [a, b, c]"
  have "take 3 p ! 2 = p ! 2"
    by simp
  with t show ?thesis
    by (simp add: numeral_2_eq_2)
qed

text \<open>
  C7, as the code has it. Both encoders declare \<open>ttl = 3\<close> as the default of their last
  parameter: with the argument omitted, the announce packet and the message packet alike
  carry 3 at byte offset 2. The 5 of a message packet is not a default of the encoder: it
  is the argument that \<open>sendMessages\<close> and \<open>broadcastToAll\<close> pass on every call, while
  they omit the argument of the announce encoder; so every packet they write starts
  \<open>01 01 03\<close> (announce) or \<open>01 04 05\<close> (message).
\<close>

theorem default_ttl_is_three:
  assumes "length sid = 8"
  shows "(\<exists>p. generateAnnouncePacket ts sid name None = Inr p \<and> p ! 2 = 3)
       \<and> (\<exists>p. generateMessagePacket ts idt sid name body None = Inr p \<and> p ! 2 = 3)
       \<and> (\<exists>p. generateMessagePacket ts idt sid name body (Some 5) = Inr p \<and> p ! 2 = 5)
       \<and> (\<exists>r s' ws. announce_then_messages e d entry sid name body num s = (r, s')
              \<and> wire s' = wire s @ ws
              \<and> (\<forall>w \<in> set ws. take 3 (snd w) = [0x01, 0x01, 0x03] \<or> take 3 (snd w) = [0x01, 0x04, 0x05]))"
proof -
  have "\<exists>p. generateAnnouncePacket ts sid name None = Inr p \<and> p ! 2 = 3"
    unfolding announce_packet [OF assms]
    using third_byte [OF take3_announce] by simp
  moreover have "\<exists>p. generateMessagePacket ts idt sid name body None = Inr p \<and> p ! 2 = 3"
    unfolding message_packet [OF assms]
    using third_byte [OF take3_envelope] by simp
  moreover have "\<exists>p. generateMessagePacket ts idt sid name body (Some 5) = Inr p \<and> p ! 2 = 5"
    unfolding message_packet [OF assms]
    using third_byte [OF take3_envelope] by simp
  moreover have "\<exists>r s' ws. announce_then_messages e d entry sid name body num s = (r, s')
              \<and> wire s' = wire s @ ws
              \<and> (\<forall>w \<in> set ws. take 3 (snd w) = [0x01, 0x01, 0x03] \<or> take 3 (snd w) = [0x01, 0x04, 0x05])"
    using announce_then_messages_wrote [OF assms, of e d entry name body num s]
    unfolding wrote_def by blast
  ultimately show ?thesis
    by blast
qed

theorem default_ttl_is_three_witness:
  "length [1, 2, 3, 4, 5, 6, 7, 8 :: byte] = 8
   \<and> (\<exists>p. generateAnnouncePacket 1000 [1, 2, 3, 4, 5, 6, 7, 8] [65, 108, 105, 99, 101] None = Inr p
         \<and> p ! 2 = 3)
   \<and> (\<exists>p. generateMessagePacket 1000 [117, 49] [1, 2, 3, 4, 5, 6, 7, 8] [65, 108, 105, 99, 101]
               [104, 105] None = Inr p \<and> p ! 2 = 3)
   \<and> (\<exists>p. generateMessagePacket 1000 [117, 49] [1, 2, 3, 4, 5, 6, 7, 8] [65, 108, 105, 99, 101]
               [104, 105] (Some 5) = Inr p \<and> p ! 2 = 5)"
proof -
  have l: "length [1, 2, 3, 4, 5, 6, 7, 8 :: byte] = 8"
    by simp
  from default_ttl_is_three [OF l, of 1000 "[65, 108, 105, 99, 101]" "[117, 49]" "[104, 105]"]
  show ?thesis
    using l by blast
qed

theorem message_default_ttl_counterexample:
  "ebind (generateMessagePacket 1000 [117, 49] [1, 2, 3, 4, 5, 6, 7, 8] [65, 108, 105, 99, 101]
            [104, 105] None) (\<lambda>p. Inr (p ! 2)) = Inr 3"
proof -
  have l: "length [1, 2, 3, 4, 5, 6, 7, 8 :: byte] = 8"
    by simp
  show ?thesis
    unfolding message_packet [OF l]
    using third_byte [OF take3_envelope] by simp
qed

section \<open>A broadcast run with a failing peer\<close>

lemma find_none: "\<forall>x \<in> set xs. \<not> P x \<Longrightarrow> find P xs = None"
  by (induction xs) simp_all

lemma log_add_keeps:
  "wire (log_add m s) = wire s" "discoveredDevices (log_add m s) = discoveredDevices s"
  "status (log_add m s) = status s" "random_drawn (log_add m s) = random_drawn s"
  by (simp_all add: log_add_def Let_def)

lemma broadcast_three_peers:
  assumes sid: "length sid = 8" and fresh: "discoveredDevices s = []"
    and d1: "connects d1" "\<forall>j. accepts d1 j"
    and d2: "\<not> connects d2" "dev_id d2 \<noteq> dev_id d1"
    and d3: "connects d3" "\<forall>j. accepts d3 j" "dev_id d3 \<noteq> dev_id d1"
  shows "\<exists>s' ws1 ws3.
           broadcast_loop e sid name msg num [Picked d1, Picked d2, Picked d3, UserCancelled] 0 0 s
             = Some (2, 2 * num, s')
         \<and> wire s' = wire s @ ws1 @ ws3
         \<and> map fst ws1 = replicate (1 + nat num) (dev_id d1)
         \<and> map fst ws3 = replicate (1 + nat num) (dev_id d3)
         \<and> status s' = status s"
proof -
  define a where "a = log_add (LogConnecting (dev_id d1)) s"
  have fa: "find (\<lambda>d'. dev_id d' = dev_id d1) (discoveredDevices s) = None"
    by (simp add: fresh)
  from broadcast_device_wrote [OF sid, of e name msg num d1 a] d1 obtain b ws1 where
    b: "broadcast_device e sid name msg num d1 a = (None, b)" "wire b = wire a @ ws1"
      "\<forall>w \<in> set ws1. fst w = dev_id d1" "length ws1 = 1 + nat num"
      "discoveredDevices b = discoveredDevices a @ [d1]" "status b = status a"
    by blast
  have step1: "broadcast_loop e sid name msg num [Picked d1, Picked d2, Picked d3, UserCancelled] 0 0 s
               = broadcast_loop e sid name msg num [Picked d2, Picked d3, UserCancelled] (0 + 1) (0 + num) b"
    using broadcast_loop_sent [OF fa b(1) [unfolded a_def]] .
  have disc_b: "discoveredDevices b = [d1]"
    using b(5) by (simp add: a_def log_add_keeps fresh)
  define c where "c = log_add (LogConnecting (dev_id d2)) b"
  have fb: "find (\<lambda>d'. dev_id d' = dev_id d2) (discoveredDevices b) = None"
    using d2(2) by (simp add: disc_b)
  have fail: "broadcast_device e sid name msg num d2 c = (Some NetworkError, c)"
    using d2(1) by (simp add: broadcast_device_def)
  define f where "f = log_add (LogFailedToSendTo (dev_id d2) NetworkError) c"
  have step2: "broadcast_loop e sid name msg num [Picked d2, Picked d3, UserCancelled] (0 + 1) (0 + num) b
               = broadcast_loop e sid name msg num [Picked d3, UserCancelled] (0 + 1) (0 + num) f"
    unfolding f_def using broadcast_loop_failed [OF fb fail [unfolded c_def]] by (simp add: c_def)
  have disc_f: "discoveredDevices f = [d1]" and wire_f: "wire f = wire b" and status_f: "status f = status b"
    by (simp_all add: f_def c_def log_add_keeps disc_b)
  define g where "g = log_add (LogConnecting (dev_id d3)) f"
  have ff: "find (\<lambda>d'. dev_id d' = dev_id d3) (discoveredDevices f) = None"
    using d3(3) by (simp add: disc_f)
  from broadcast_device_wrote [OF sid, of e name msg num d3 g] d3 obtain h ws3 where
    h: "broadcast_device e sid name msg num d3 g = (None, h)" "wire h = wire g @ ws3"
      "\<forall>w \<in> set ws3. fst w = dev_id d3" "length ws3 = 1 + nat num" "status h = status g"
    by blast
  have step3: "broadcast_loop e sid name msg num [Picked d3, UserCancelled] (0 + 1) (0 + num) f
               = broadcast_loop e sid name msg num [UserCancelled] (0 + 1 + 1) (0 + num + num) h"
    using broadcast_loop_sent [OF ff h(1) [unfolded g_def]] .
  define s' where "s' = log_add LogUserCancelled h"
  have run: "broadcast_loop e sid name msg num [Picked d1, Picked d2, Picked d3, UserCancelled] 0 0 s
             = Some (2, 2 * num, s')"
    unfolding step1 step2 step3 by (simp add: s'_def)
  have w: "wire s' = wire s @ ws1 @ ws3"
    by (simp add: s'_def log_add_keeps h(2) g_def wire_f b(2) a_def)
  have st: "status s' = status s"
    by (simp add: s'_def log_add_keeps h(5) g_def status_f b(6) a_def)
  have m1: "map fst ws1 = replicate (1 + nat num) (dev_id d1)"
    using map_const_replicate [of ws1 fst "dev_id d1"] b(3) b(4) by simp
  have m3: "map fst ws3 = replicate (1 + nat num) (dev_id d3)"
    using map_const_replicate [of ws3 fst "dev_id d3"] h(3) h(4) by simp
  show ?thesis
    using run w st m1 m3 by blast
qed

text \<open>
  C8, as the code has it. In a broadcast run a peer whose connection or send fails does
  not end the run: the failure is logged for that peer, the counters are left as they
  were, and the loop goes on to the next pick. The run keeps two counters, both of
  successes (\<open>devicesFound\<close> and \<open>messagesSent\<close>), and no count of failures; it returns
  no value, and reports the two counters in its last log entry and in the status line.
  With three picked peers of which the second does not connect, followed by the user
  closing the picker, the first and the third peer each receive the announce packet and
  the message packets, and the run reports 2 devices and \<open>2 * numMessages\<close> messages.
\<close>

theorem broadcast_survives_peer_failure:
  assumes "bluetooth e" and "name \<noteq> []" and "msg \<noteq> []" and "discoveredDevices s = []"
    and "connects d1" and "\<forall>j. accepts d1 j"
    and "\<not> connects d2" and "dev_id d2 \<noteq> dev_id d1"
    and "connects d3" and "\<forall>j. accepts d3 j" and "dev_id d3 \<noteq> dev_id d1"
  shows "(\<exists>s' ws1 ws3.
            broadcastToAll e name msg num [Picked d1, Picked d2, Picked d3, UserCancelled] s = Some s'
          \<and> wire s' = wire s @ ws1 @ ws3
          \<and> map fst ws1 = replicate (1 + nat num) (dev_id d1)
          \<and> map fst ws3 = replicate (1 + nat num) (dev_id d3)
          \<and> status s' = StatusBroadcastTo 2
          \<and> hd (log_entries s') = LogBroadcastComplete (2 * num) 2
          \<and> discoveredDevices s' = [])
       \<and> (\<forall>d sid picks found sent s0 err s1.
             find (\<lambda>d'. dev_id d' = dev_id d) (discoveredDevices s0) = None
             \<and> broadcast_device e sid name msg num d (log_add (LogConnecting (dev_id d)) s0) = (Some err, s1)
             \<longrightarrow> broadcast_loop e sid name msg num (Picked d # picks) found sent s0 =
                 broadcast_loop e sid name msg num picks found sent
                   (log_add (LogFailedToSendTo (dev_id d) err) s1))"
proof -
  define sid where "sid = map (getRandomValues e) [random_drawn s ..< random_drawn s + 8]"
  define s0 where "s0 = log_add LogBroadcastStart (setStatus StatusBroadcasting s)"
  define s1 where "s1 = log_add LogPickerNote (s0\<lparr>random_drawn := random_drawn s0 + 8\<rparr>)"
  have sid: "length sid = 8"
    by (simp add: sid_def)
  have g: "generateSenderId e s0 = (sid, s0\<lparr>random_drawn := random_drawn s0 + 8\<rparr>)"
    by (simp add: generateSenderId_def sid_def s0_def log_add_def setStatus_def Let_def)
  have k: "wire s1 = wire s" "discoveredDevices s1 = []"
    using assms(4) by (simp_all add: s1_def s0_def log_add_def setStatus_def Let_def)
  from broadcast_three_peers [OF sid k(2) assms(5-11), of e name msg num]
  obtain s2 ws1 ws3 where
    loop: "broadcast_loop e sid name msg num [Picked d1, Picked d2, Picked d3, UserCancelled] 0 0 s1
             = Some (2, 2 * num, s2)"
    and w: "wire s2 = wire s1 @ ws1 @ ws3"
      "map fst ws1 = replicate (1 + nat num) (dev_id d1)"
      "map fst ws3 = replicate (1 + nat num) (dev_id d3)"
    by blast
  define s' where "s' = (setStatus (StatusBroadcastTo 2) (log_add (LogBroadcastComplete (2 * num) 2) s2))
                          \<lparr>discoveredDevices := []\<rparr>"
  have unfold: "broadcastToAll e name msg num P s =
        (case broadcast_loop e sid name msg num P 0 0 s1 of
           None \<Rightarrow> None
         | Some (devicesFound, messagesSent, s) \<Rightarrow>
             Some ((if devicesFound > 0
                    then setStatus (StatusBroadcastTo devicesFound)
                           (log_add (LogBroadcastComplete messagesSent devicesFound) s)
                    else setStatus StatusNoDevices s)\<lparr>discoveredDevices := []\<rparr>))" for P
    using assms(1-3) g
    by (simp add: broadcastToAll_def Let_def s0_def [symmetric] s1_def [symmetric]
          del: broadcast_loop.simps split: option.splits)
  have run: "broadcastToAll e name msg num [Picked d1, Picked d2, Picked d3, UserCancelled] s = Some s'"
    unfolding unfold loop by (simp add: s'_def)
  have "wire s' = wire s @ ws1 @ ws3" "status s' = StatusBroadcastTo 2" "discoveredDevices s' = []"
    using w(1) k(1) by (simp_all add: s'_def setStatus_def log_add_def Let_def)
  moreover have "hd (log_entries s') = LogBroadcastComplete (2 * num) 2"
    using hd_log_add [of "LogBroadcastComplete (2 * num) 2" s2] by (simp add: s'_def setStatus_def)
  ultimately have first: "\<exists>s' ws1 ws3.
            broadcastToAll e name msg num [Picked d1, Picked d2, Picked d3, UserCancelled] s = Some s'
          \<and> wire s' = wire s @ ws1 @ ws3
          \<and> map fst ws1 = replicate (1 + nat num) (dev_id d1)
          \<and> map fst ws3 = replicate (1 + nat num) (dev_id d3)
          \<and> status s' = StatusBroadcastTo 2
          \<and> hd (log_entries s') = LogBroadcastComplete (2 * num) 2
          \<and> discoveredDevices s' = []"
    using run w(2) w(3) by blast
  have second: "\<forall>d sid picks found sent s0 err s1.
             find (\<lambda>d'. dev_id d' = dev_id d) (discoveredDevices s0) = None
             \<and> broadcast_device e sid name msg num d (log_add (LogConnecting (dev_id d)) s0) = (Some err, s1)
             \<longrightarrow> broadcast_loop e sid name msg num (Picked d # picks) found sent s0 =
                 broadcast_loop e sid name msg num picks found sent
                   (log_add (LogFailedToSendTo (dev_id d) err) s1)"
    using broadcast_loop_failed by blast
  from first second show ?thesis
    by blast
qed

theorem broadcast_survives_peer_failure_witness:
  "bluetooth example_env \<and> [65, 108, 105, 99, 101 :: nat] \<noteq> [] \<and> [104, 105 :: nat] \<noteq> []
   \<and> discoveredDevices example_session = []
   \<and> connects (example_device ''d1'' True) \<and> (\<forall>j. accepts (example_device ''d1'' True) j)
   \<and> \<not> connects (example_device ''d2'' False)
   \<and> dev_id (example_device ''d2'' False) \<noteq> dev_id (example_device ''d1'' True)
   \<and> connects (example_device ''d3'' True) \<and> (\<forall>j. accepts (example_device ''d3'' True) j)
   \<and> dev_id (example_device ''d3'' True) \<noteq> dev_id (example_device ''d1'' True)
   \<and> (\<exists>s'. broadcastToAll example_env [65, 108, 105, 99, 101] [104, 105] 1
               [Picked (example_device ''d1'' True), Picked (example_device ''d2'' False),
                Picked (example_device ''d3'' True), UserCancelled] example_session = Some s'
         \<and> map fst (wire s') = [''d1'', ''d1'', ''d3'', ''d3'']
         \<and> status s' = StatusBroadcastTo 2
         \<and> hd (log_entries s') = LogBroadcastComplete 2 2
         \<and> discoveredDevices s' = [])"
proof -
  have h: "bluetooth example_env" "[65, 108, 105, 99, 101 :: nat] \<noteq> []" "[104, 105 :: nat] \<noteq> []"
    "discoveredDevices example_session = []"
    "connects (example_device ''d1'' True)" "\<forall>j. accepts (example_device ''d1'' True) j"
    "\<not> connects (example_device ''d2'' False)"
    "dev_id (example_device ''d2'' False) \<noteq> dev_id (example_device ''d1'' True)"
    "connects (example_device ''d3'' True)" "\<forall>j. accepts (example_device ''d3'' True) j"
    "dev_id (example_device ''d3'' True) \<noteq> dev_id (example_device ''d1'' True)"
    by (simp_all add: example_env_fields example_session_fields example_device_fields)
  from broadcast_survives_peer_failure [OF h, of 1] obtain s' ws1 ws3 where
    r: "broadcastToAll example_env [65, 108, 105, 99, 101] [104, 105] 1
               [Picked (example_device ''d1'' True), Picked (example_device ''d2'' False),
                Picked (example_device ''d3'' True), UserCancelled] example_session = Some s'"
      "wire s' = wire example_session @ ws1 @ ws3"
      "map fst ws1 = replicate (1 + nat 1) (dev_id (example_device ''d1'' True))"
      "map fst ws3 = replicate (1 + nat 1) (dev_id (example_device ''d3'' True))"
      "status s' = StatusBroadcastTo 2"
      "hd (log_entries s') = LogBroadcastComplete (2 * 1) 2"
      "discoveredDevices s' = []"
    by blast
  have "map fst (wire s') = [''d1'', ''d1'', ''d3'', ''d3'']"
    using r(3) r(4)
    by (simp add: r(2) example_session_fields example_device_fields numeral_2_eq_2)
  with r(1) r(5) r(6) r(7) have "\<exists>s'. broadcastToAll example_env [65, 108, 105, 99, 101] [104, 105] 1
               [Picked (example_device ''d1'' True), Picked (example_device ''d2'' False),
                Picked (example_device ''d3'' True), UserCancelled] example_session = Some s'
         \<and> map fst (wire s') = [''d1'', ''d1'', ''d3'', ''d3'']
         \<and> status s' = StatusBroadcastTo 2
         \<and> hd (log_entries s') = LogBroadcastComplete 2 2
         \<and> discoveredDevices s' = []"
    by simp
  with h show ?thesis
    by blast
qed

theorem failure_count_counterexample:
  "map_option (\<lambda>s. (status s, log_entries s, map fst (wire s)))
     (broadcastToAll example_env [65, 108, 105, 99, 101] [104, 105] 1
        [Picked (example_device ''d1'' True), Picked (example_device ''d2'' False),
         Picked (example_device ''d3'' True), UserCancelled] example_session) =
   Some (StatusBroadcastTo 2,
         [LogBroadcastComplete 2 2, LogUserCancelled,
          LogSentTo ''d3'' 1, LogSendingMessageTo ''d3'' 1 1, LogSendingAnnounce, LogConnecting ''d3'',
          LogFailedToSendTo ''d2'' NetworkError, LogConnecting ''d2'',
          LogSentTo ''d1'' 1, LogSendingMessageTo ''d1'' 1 1, LogSendingAnnounce, LogConnecting ''d1'',
          LogPickerNote, LogBroadcastStart],
         [''d1'', ''d1'', ''d3'', ''d3''])"
  by (simp add: broadcastToAll_def broadcast_device_def announce_then_messages_def
        announcePacket_now_def messagePacket_now_def writeValueWithoutResponse_def
        generateSenderId_def log_add_def setStatus_def Let_def
        example_env_def example_device_def example_session_def announce_packet message_packet)

end
